theory Spec2Isabelle
  imports Complex_Main "HOL-Library.Multiset"
begin

section \<open>The tabular preprocessor of \<^verbatim>\<open>processing_xgboost.ipynb\<close> (cell 06, \<^verbatim>\<open>preprocessing.py\<close>)\<close>

text \<open>
  The script loads a table with \<^verbatim>\<open>pd.read_csv\<close>, rewrites string values, adds two
  indicator columns, drops six columns, one-hot encodes, shuffles with seed 42, splits
  70/20/10 and writes four CSV files. The embedding below follows it statement by
  statement. The pandas and numpy operations it calls are modelled on the values they
  compute; what each definition stands for is written next to it.
\<close>

subsection \<open>Data model: cells, columns, frames\<close>

text \<open>
  A cell is a value as \<^verbatim>\<open>read_csv\<close> infers it: a 64-bit integer, a finite double
  (kept as the rational it denotes), a missing value (NaN), a boolean, or a Python
  string. A column carries its label, its dtype and its cells; a frame carries the row
  labels (the index, \<open>[0..<N]\<close> after \<^verbatim>\<open>read_csv\<close>) and its columns in order.
  Columns of dtype \<open>Object\<close> hold strings and NaN (a text column) or booleans and NaN
  (a boolean column with missing values).
\<close>

datatype cell = IntC int | FloatC rat | NaN | BoolC bool | StrC string

datatype dtype = Int64 | Float64 | BoolT | Object | UInt8

record column =
  label :: string
  dtype :: dtype
  cells :: "cell list"

record frame =
  index :: "nat list"
  columns :: "column list"

definition labels :: "frame \<Rightarrow> string list" where
  "labels df = map label (columns df)"

definition len :: "frame \<Rightarrow> nat" where
  "len df = length (index df)"

text \<open>The invariant of a pandas frame: every column has one cell per row.\<close>

definition wf_frame :: "frame \<Rightarrow> bool" where
  "wf_frame df = list_all (\<lambda>c. length (cells c) = len df) (columns df)"

text \<open>
  The exceptions of a run. \<open>OSError\<close> stands for the operating-system errors of opening
  a file, with the path (a write into a missing directory raises \<^verbatim>\<open>OSError\<close> itself or
  its subclass \<^verbatim>\<open>FileNotFoundError\<close>, according to the pandas release); \<open>ParserError\<close>
  stands for what \<^verbatim>\<open>read_csv\<close> raises on a content it cannot load.
\<close>

datatype error =
    KeyError "string list"
  | ValueError
  | IndexError
  | OSError string
  | ParserError

subsection \<open>Textual normalization: \<^verbatim>\<open>df.replace(regex=..., value=...)\<close>\<close>

text \<open>
  \<^verbatim>\<open>df = df.replace(regex=r'\.', value='_')\<close> and
  \<^verbatim>\<open>df = df.replace(regex=r'\_$', value='')\<close>. With a string replacement value pandas
  applies \<^verbatim>\<open>re.sub(pattern, value, s)\<close> to every string \<open>s\<close> of every object column
  and leaves every other cell, and every column label, as it is.

  \<open>re_sub_dot\<close> is \<^verbatim>\<open>re.sub(r'\.', '_', s)\<close>: each dot is a match. \<open>re_sub_us_end\<close> is
  \<^verbatim>\<open>re.sub(r'\_$', '', s)\<close>, scanning left to right: an underscore is a match when the
  position after it satisfies \<^verbatim>\<open>$\<close>, which in Python (no MULTILINE flag) holds at the end
  of the string and just before a line feed that ends the string.
\<close>

definition LF :: char where
  "LF = CHR 0x0A"

definition re_sub_dot :: "string \<Rightarrow> string" where
  "re_sub_dot s = map (\<lambda>c. if c = CHR ''.'' then CHR ''_'' else c) s"

definition at_dollar :: "string \<Rightarrow> bool" where
  "at_dollar rest = (rest = [] \<or> rest = [LF])"

fun re_sub_us_end :: "string \<Rightarrow> string" where
  "re_sub_us_end [] = []"
| "re_sub_us_end (c # cs) =
     (if c = CHR ''_'' \<and> at_dollar cs then re_sub_us_end cs else c # re_sub_us_end cs)"

fun re_replacer :: "(string \<Rightarrow> string) \<Rightarrow> cell \<Rightarrow> cell" where
  "re_replacer sub (StrC s) = StrC (sub s)"
| "re_replacer sub c = c"

definition replace_regex :: "(string \<Rightarrow> string) \<Rightarrow> frame \<Rightarrow> frame" where
  "replace_regex sub df =
     df\<lparr>columns :=
          map (\<lambda>c. if dtype c = Object then c\<lparr>cells := map (re_replacer sub) (cells c)\<rparr> else c)
            (columns df)\<rparr>"

definition normalize_value :: "string \<Rightarrow> string" where
  "normalize_value s = re_sub_us_end (re_sub_dot s)"

definition normalize :: "frame \<Rightarrow> frame" where
  "normalize df = replace_regex re_sub_us_end (replace_regex re_sub_dot df)"

text \<open>
  The normalization as the specification words it: every dot becomes an underscore, then
  one underscore is removed if it is the last character of the value.
\<close>

definition spec_strip_trailing :: "string \<Rightarrow> string" where
  "spec_strip_trailing s = (if s \<noteq> [] \<and> last s = CHR ''_'' then butlast s else s)"

definition spec_normalize_value :: "string \<Rightarrow> string" where
  "spec_normalize_value s = spec_strip_trailing (re_sub_dot s)"

subsection \<open>Column access, assignment and removal\<close>

text \<open>
  \<^verbatim>\<open>df[key]\<close> selects the columns labelled \<open>key\<close> (one column for unique labels, as
  \<^verbatim>\<open>read_csv\<close> produces them) and raises \<^verbatim>\<open>KeyError\<close> when there is none.
\<close>

definition getitem :: "frame \<Rightarrow> string \<Rightarrow> error + column list" where
  "getitem df key =
     (case filter (\<lambda>c. label c = key) (columns df) of
        [] \<Rightarrow> Inl (KeyError [key])
      | cs \<Rightarrow> Inr cs)"

text \<open>
  \<^verbatim>\<open>df[key] = values\<close> with integer values: an existing column of that label is
  overwritten in place, otherwise the column is appended as the last one.
\<close>

definition setitem :: "frame \<Rightarrow> string \<Rightarrow> cell list \<Rightarrow> frame" where
  "setitem df key vs =
     (if key \<in> set (labels df)
      then df\<lparr>columns := map (\<lambda>c. if label c = key then c\<lparr>dtype := Int64, cells := vs\<rparr> else c)
                             (columns df)\<rparr>
      else df\<lparr>columns := columns df @ [\<lparr>label = key, dtype = Int64, cells = vs\<rparr>]\<rparr>)"

text \<open>
  \<^verbatim>\<open>df.drop(names, axis=1)\<close> removes every column whose label is listed and raises
  \<^verbatim>\<open>KeyError\<close> (naming the labels not found) when a listed label is absent.
\<close>

definition drop_labels :: "string list \<Rightarrow> frame \<Rightarrow> error + frame" where
  "drop_labels names df =
     (case filter (\<lambda>n. n \<notin> set (labels df)) names of
        [] \<Rightarrow> Inr (df\<lparr>columns := filter (\<lambda>c. label c \<notin> set names) (columns df)\<rparr>)
      | missing \<Rightarrow> Inl (KeyError missing))"

subsection \<open>The two indicator columns\<close>

text \<open>
  \<^verbatim>\<open>df["pdays"] == 999\<close> compares cell by cell: an integer or a double equals 999 by
  value, a boolean as 0 or 1, a string or NaN never. \<^verbatim>\<open>.isin([...])\<close> with a list of
  strings holds for a string cell of the list. \<^verbatim>\<open>.astype(int)\<close> turns the boolean into
  1 or 0.
\<close>

fun eq_scalar :: "int \<Rightarrow> cell \<Rightarrow> bool" where
  "eq_scalar k (IntC i) = (i = k)"
| "eq_scalar k (FloatC r) = (r = of_int k)"
| "eq_scalar k (BoolC b) = ((if b then 1 else 0) = k)"
| "eq_scalar k NaN = False"
| "eq_scalar k (StrC s) = False"

fun isin :: "string list \<Rightarrow> cell \<Rightarrow> bool" where
  "isin vs (StrC s) = (s \<in> set vs)"
| "isin vs c = False"

definition astype_int :: "bool \<Rightarrow> cell" where
  "astype_int b = IntC (if b then 1 else 0)"

text \<open>
  \<^verbatim>\<open>df[new] = test(df[src]).astype(int)\<close>. Were the label \<open>src\<close> duplicated, the right-hand
  side would be a frame of several columns, which pandas refuses to assign to one label
  (\<^verbatim>\<open>ValueError\<close>).
\<close>

definition add_indicator :: "string \<Rightarrow> string \<Rightarrow> (cell \<Rightarrow> bool) \<Rightarrow> frame \<Rightarrow> error + frame" where
  "add_indicator new src test df =
     (case getitem df src of
        Inl e \<Rightarrow> Inl e
      | Inr [c] \<Rightarrow> Inr (setitem df new (map (\<lambda>v. astype_int (test v)) (cells c)))
      | Inr _ \<Rightarrow> Inl ValueError)"

definition not_working_jobs :: "string list" where
  "not_working_jobs = [''student'', ''retired'', ''unemployed'']"

definition pruned :: "string list" where
  "pruned = [''duration'', ''emp.var.rate'', ''cons.price.idx'', ''cons.conf.idx'',
             ''euribor3m'', ''nr.employed'']"

subsection \<open>One-hot encoding: \<^verbatim>\<open>pd.get_dummies(df)\<close>\<close>

text \<open>
  Without a column list \<^verbatim>\<open>get_dummies\<close> encodes every object column. The result holds
  the other columns first, in their order, then for each object column, in order, one
  0/1 column per level, labelled \<^verbatim>\<open>column_level\<close> with the level printed by \<^verbatim>\<open>str\<close>;
  the levels are the distinct values of the column other than NaN, in ascending order
  (\<open>False\<close> before \<open>True\<close>, strings by code point, and in a column that mixes the two
  the booleans before the strings), and a NaN cell is 0 in every one of them. An object
  column is taken to hold strings, booleans and NaN, as \<^verbatim>\<open>read_csv\<close> builds it; a number
  in an object column gets no level here. The indicator columns are of dtype \<open>uint8\<close>,
  as in the pandas releases of the processing image the notebook names. Strings are
  byte lists here, and the byte order of UTF-8 is the order of the code points.
\<close>

definition char_le :: "char \<Rightarrow> char \<Rightarrow> bool" where
  "char_le a b = ((of_char a :: nat) \<le> of_char b)"

fun str_le :: "string \<Rightarrow> string \<Rightarrow> bool" where
  "str_le [] t = True"
| "str_le (a # s) [] = False"
| "str_le (a # s) (b # t) = (if a = b then str_le s t else char_le a b)"

fun insert_sorted :: "string \<Rightarrow> string list \<Rightarrow> string list" where
  "insert_sorted s [] = [s]"
| "insert_sorted s (t # ts) = (if str_le s t then s # t # ts else t # insert_sorted s ts)"

definition sorted_strings :: "string list \<Rightarrow> string list" where
  "sorted_strings ss = foldr insert_sorted ss []"

fun strings_of :: "cell list \<Rightarrow> string list" where
  "strings_of [] = []"
| "strings_of (StrC s # cs) = s # strings_of cs"
| "strings_of (c # cs) = strings_of cs"

definition bool_levels :: "cell list \<Rightarrow> cell list" where
  "bool_levels cs =
     (if BoolC False \<in> set cs then [BoolC False] else [])
     @ (if BoolC True \<in> set cs then [BoolC True] else [])"

definition levels :: "cell list \<Rightarrow> cell list" where
  "levels cs = bool_levels cs @ map StrC (sorted_strings (remdups (strings_of cs)))"

fun level_name :: "cell \<Rightarrow> string" where
  "level_name (StrC s) = s"
| "level_name (BoolC b) = (if b then ''True'' else ''False'')"
| "level_name c = []"

definition dummy_label :: "string \<Rightarrow> string \<Rightarrow> string" where
  "dummy_label prefix name = prefix @ ''_'' @ name"

definition dummy_column :: "column \<Rightarrow> cell \<Rightarrow> column" where
  "dummy_column c level =
     \<lparr>label = dummy_label (label c) (level_name level), dtype = UInt8,
      cells = map (\<lambda>v. IntC (if v = level then 1 else 0)) (cells c)\<rparr>"

definition get_dummies_1d :: "column \<Rightarrow> column list" where
  "get_dummies_1d c = map (dummy_column c) (levels (cells c))"

definition get_dummies :: "frame \<Rightarrow> frame" where
  "get_dummies df =
     df\<lparr>columns := filter (\<lambda>c. dtype c \<noteq> Object) (columns df)
                     @ concat (map get_dummies_1d (filter (\<lambda>c. dtype c = Object) (columns df)))\<rparr>"

subsection \<open>Lines 200 to 207 of the script: from the loaded table to the encoded table\<close>

definition add_indicators :: "frame \<Rightarrow> error + frame" where
  "add_indicators df =
     (case add_indicator ''no_previous_contact'' ''pdays'' (eq_scalar 999) df of
        Inl e \<Rightarrow> Inl e
      | Inr df1 \<Rightarrow> add_indicator ''not_working'' ''job'' (isin not_working_jobs) df1)"

definition derive :: "frame \<Rightarrow> error + frame" where
  "derive df =
     (case add_indicators (normalize df) of
        Inl e \<Rightarrow> Inl e
      | Inr df2 \<Rightarrow>
          (case drop_labels pruned df2 of
             Inl e \<Rightarrow> Inl e
           | Inr df3 \<Rightarrow> Inr (get_dummies df3)))"

subsection \<open>Line 209: shuffle with a fixed seed and split at 70% and 90%\<close>

text \<open>
  Two parts of the libraries are not part of the script and enter as parameters.
  numpy's generator: \<open>RandomState\<close> builds the generator state for a seed, and
  \<open>choice lib rs n\<close> is \<^verbatim>\<open>rs.choice(n, size=n, replace=False)\<close>, a draw of all of
  \<open>0..n-1\<close> without replacement in an order fixed by the state. The CSV parser of
  pandas: \<open>parse_csv lib content\<close> is the frame \<^verbatim>\<open>read_csv\<close> builds from the content of a
  file (header line, type inference), and \<open>None\<close> for a content the parser refuses.
\<close>

record 'g library =
  RandomState :: "nat \<Rightarrow> 'g"
  choice :: "'g \<Rightarrow> nat \<Rightarrow> nat list"
  parse_csv :: "cell list list \<Rightarrow> frame option"

text \<open>\<^verbatim>\<open>df.take(locs)\<close>: the rows at the given positions, \<^verbatim>\<open>IndexError\<close> for a position out of range.\<close>

definition take_rows :: "nat list \<Rightarrow> frame \<Rightarrow> error + frame" where
  "take_rows locs df =
     (if list_all (\<lambda>i. i < len df) locs
      then Inr \<lparr>index = map (nth (index df)) locs,
                columns = map (\<lambda>c. c\<lparr>cells := map (nth (cells c)) locs\<rparr>) (columns df)\<rparr>
      else Inl IndexError)"

text \<open>
  \<^verbatim>\<open>df.sample(frac=1, random_state=...)\<close>: an integer \<open>random_state\<close> seeds a generator of
  its own, \<open>None\<close> would use numpy's global generator (its state is \<open>g\<close>); with
  \<open>frac=1\<close> all \<open>len df\<close> rows are drawn.
\<close>

definition sample :: "'g library \<Rightarrow> 'g \<Rightarrow> nat option \<Rightarrow> frame \<Rightarrow> error + frame" where
  "sample lib g random_state df =
     (let rs = (case random_state of None \<Rightarrow> g | Some seed \<Rightarrow> RandomState lib seed)
      in take_rows (choice lib rs (len df)) df)"

text \<open>
  \<^verbatim>\<open>int(0.7 * len(df))\<close> is a double-precision product, truncated. The literal 0.7 is the
  double \<open>0x1.6666666666666p-1\<close>, that is \<open>6305039478318694 / 2^53\<close>, and 0.9 is
  \<open>0x1.ccccccccccccdp-1\<close>, that is \<open>8106479329266893 / 2^53\<close>. For \<open>n < 2^53\<close> the length
  converts to a double exactly, the exact product is \<open>m * n / 2^53\<close>, and the hardware
  rounds it to 53 significant bits, to nearest, ties to the even significand.
\<close>

definition double_0_7 :: nat where
  "double_0_7 = 6305039478318694"

definition double_0_9 :: nat where
  "double_0_9 = 8106479329266893"

fun bit_length :: "nat \<Rightarrow> nat" where
  "bit_length n = (if n = 0 then 0 else Suc (bit_length (n div 2)))"

definition round_half_even :: "nat \<Rightarrow> nat \<Rightarrow> nat" where
  "round_half_even s p =
     (let q = p div 2 ^ s; r = p mod 2 ^ s
      in (if 2 ^ s < 2 * r \<or> (2 * r = 2 ^ s \<and> odd q) then q + 1 else q) * 2 ^ s)"

definition round53 :: "nat \<Rightarrow> nat" where
  "round53 p = round_half_even (bit_length p - 53) p"

definition float_mul_trunc :: "nat \<Rightarrow> nat \<Rightarrow> nat" where
  "float_mul_trunc m n = round53 (m * n) div 2 ^ 53"

definition cut70 :: "nat \<Rightarrow> nat" where
  "cut70 n = float_mul_trunc double_0_7 n"

definition cut90 :: "nat \<Rightarrow> nat" where
  "cut90 n = float_mul_trunc double_0_9 n"

text \<open>
  \<^verbatim>\<open>lib.split(s, [a, b])\<close> returns \<^verbatim>\<open>s[0:a], s[a:b], s[b:len(s)]\<close>, each a Python slice of
  the rows (empty when its end is not after its start, clipped at the length).
\<close>

definition slice :: "nat \<Rightarrow> nat \<Rightarrow> 'a list \<Rightarrow> 'a list" where
  "slice st en xs = take (en - st) (drop st xs)"

definition iloc :: "nat \<Rightarrow> nat \<Rightarrow> frame \<Rightarrow> frame" where
  "iloc st en df =
     \<lparr>index = slice st en (index df),
      columns = map (\<lambda>c. c\<lparr>cells := slice st en (cells c)\<rparr>) (columns df)\<rparr>"

definition split :: "frame \<Rightarrow> nat \<Rightarrow> nat \<Rightarrow> frame \<times> frame \<times> frame" where
  "split s a b = (iloc 0 a s, iloc a b s, iloc b (len s) s)"

definition shuffle_split :: "'g library \<Rightarrow> 'g \<Rightarrow> frame \<Rightarrow> error + frame \<times> frame \<times> frame" where
  "shuffle_split lib g df =
     (case sample lib g (Some 42) df of
        Inl e \<Rightarrow> Inl e
      | Inr s \<Rightarrow> Inr (split s (cut70 (len df)) (cut90 (len df))))"

subsection \<open>Lines 211 to 214: the four frames that are written\<close>

text \<open>
  \<^verbatim>\<open>pd.concat([part['y_yes'], part.drop(['y_yes','y_no'], axis=1)], axis=1)\<close>: both pieces
  have the rows of \<open>part\<close>, so the result has the selected columns followed by the
  remaining ones.
\<close>

definition label_cols :: "string list" where
  "label_cols = [''y_yes'', ''y_no'']"

definition label_first :: "frame \<Rightarrow> error + frame" where
  "label_first part =
     (case getitem part ''y_yes'' of
        Inl e \<Rightarrow> Inl e
      | Inr ys \<Rightarrow>
          (case drop_labels label_cols part of
             Inl e \<Rightarrow> Inl e
           | Inr x \<Rightarrow> Inr (part\<lparr>columns := ys @ columns x\<rparr>)))"

definition label_only :: "frame \<Rightarrow> error + frame" where
  "label_only part =
     (case getitem part ''y_yes'' of
        Inl e \<Rightarrow> Inl e
      | Inr ys \<Rightarrow> Inr (part\<lparr>columns := ys\<rparr>))"

definition features_only :: "frame \<Rightarrow> error + frame" where
  "features_only part = drop_labels label_cols part"

subsection \<open>Arguments, files and the whole script\<close>

text \<open>
  The script is modelled from the parsed arguments on: \<open>args\<close> is the namespace that
  \<^verbatim>\<open>_parse_args\<close> returns, four strings, and \<open>default_args\<close> holds the defaults declared
  there, which is what a command line without options gives.
\<close>

record args =
  filepath :: string
  filename :: string
  outputpath :: string
  categorical_features :: string

definition default_args :: args where
  "default_args =
     \<lparr>filepath = ''/opt/ml/processing/input/'',
      filename = ''bank-additional-full.csv'',
      outputpath = ''/opt/ml/processing/output/'',
      categorical_features =
        ''y, job, marital, education, default, housing, loan, contact, month, day_of_week, poutcome''\<rparr>"

text \<open>\<^verbatim>\<open>os.path.join(a, b)\<close> for two components (POSIX).\<close>

definition path_join :: "string \<Rightarrow> string \<Rightarrow> string" where
  "path_join a b =
     (if b \<noteq> [] \<and> hd b = CHR ''/'' then b
      else if a = [] \<or> last a = CHR ''/'' then a @ b
      else a @ ''/'' @ b)"

text \<open>
  The directory a file path lies in (\<^verbatim>\<open>os.path.dirname\<close>): everything before the last
  slash, without trailing slashes unless it consists of slashes only.
\<close>

definition rstrip_slash :: "string \<Rightarrow> string" where
  "rstrip_slash p = rev (dropWhile (\<lambda>c. c = CHR ''/'') (rev p))"

definition dirname :: "string \<Rightarrow> string" where
  "dirname p =
     (let head = rev (dropWhile (\<lambda>c. c \<noteq> CHR ''/'') (rev p))
      in if rstrip_slash head = [] then head else rstrip_slash head)"

text \<open>
  The world the script runs in: \<open>files\<close> gives the content of the file at a path, the
  list of its lines, each line the list of its fields (the bytes of a file are these
  fields as printed, with commas and line ends between them); \<open>dirs\<close> are the paths of
  the existing directories; \<open>stdout\<close> collects what is printed; \<open>np_random\<close> is the state
  of numpy's global generator.
\<close>

record 'g world =
  files :: "string \<rightharpoonup> cell list list"
  dirs :: "string set"
  stdout :: "string list"
  np_random :: 'g

text \<open>\<^verbatim>\<open>pd.read_csv(path)\<close>: the file must exist, and its content is parsed.\<close>

definition read_csv :: "'g library \<Rightarrow> 'g world \<Rightarrow> string \<Rightarrow> error + frame" where
  "read_csv lib w path =
     (case files w path of
        None \<Rightarrow> Inl (OSError path)
      | Some content \<Rightarrow>
          (case parse_csv lib content of None \<Rightarrow> Inl ParserError | Some df \<Rightarrow> Inr df))"

text \<open>
  A statement that changes the world either completes, leaving the new world, or raises,
  leaving the error and the world as it is at that moment.
\<close>

type_synonym 'g outcome = "error \<times> 'g world + 'g world"

definition final :: "'g outcome \<Rightarrow> 'g world" where
  "final r = (case r of Inl (e, w) \<Rightarrow> w | Inr w \<Rightarrow> w)"

text \<open>
  \<^verbatim>\<open>to_csv(path, index=False, header=False)\<close> writes one line per row and nothing else:
  the cells of the row in column order. It opens the file for writing, which creates or
  replaces the file but creates no directory: the open fails when the directory of the
  path does not exist.
\<close>

definition csv_rows :: "frame \<Rightarrow> cell list list" where
  "csv_rows df = map (\<lambda>i. map (\<lambda>c. cells c ! i) (columns df)) [0..<len df]"

definition to_csv :: "frame \<Rightarrow> string \<Rightarrow> 'g world \<Rightarrow> 'g outcome" where
  "to_csv df path w =
     (if dirname path \<in> dirs w
      then Inr (w\<lparr>files := (files w)(path \<mapsto> csv_rows df)\<rparr>)
      else Inl (OSError path, w))"

definition train_path :: "args \<Rightarrow> string" where
  "train_path a = path_join (outputpath a) ''train/train.csv''"

definition validation_path :: "args \<Rightarrow> string" where
  "validation_path a = path_join (outputpath a) ''validation/validation.csv''"

definition test_y_path :: "args \<Rightarrow> string" where
  "test_y_path a = path_join (outputpath a) ''test/test_y.csv''"

definition test_x_path :: "args \<Rightarrow> string" where
  "test_x_path a = path_join (outputpath a) ''test/test_x.csv''"

text \<open>One line of the local store: build the frame, then write it.\<close>

definition store :: "error + frame \<Rightarrow> string \<Rightarrow> 'g world \<Rightarrow> 'g outcome" where
  "store out path w = (case out of Inl e \<Rightarrow> Inl (e, w) | Inr df \<Rightarrow> to_csv df path w)"

definition print :: "string \<Rightarrow> 'g world \<Rightarrow> 'g world" where
  "print line w = w\<lparr>stdout := stdout w @ [line]\<rparr>"

text \<open>
  Lines 211 to 215, in the order of the script. A line that raises ends the run; the
  files written by the lines before it stay.
\<close>

definition local_store :: "args \<Rightarrow> frame \<times> frame \<times> frame \<Rightarrow> 'g world \<Rightarrow> 'g outcome" where
  "local_store a parts w =
     (case parts of (train_data, validation_data, test_data) \<Rightarrow>
        (case store (label_first train_data) (train_path a) w of
           Inl ew \<Rightarrow> Inl ew
         | Inr w1 \<Rightarrow>
        (case store (label_first validation_data) (validation_path a) w1 of
           Inl ew \<Rightarrow> Inl ew
         | Inr w2 \<Rightarrow>
        (case store (label_only test_data) (test_y_path a) w2 of
           Inl ew \<Rightarrow> Inl ew
         | Inr w3 \<Rightarrow>
        (case store (features_only test_data) (test_x_path a) w3 of
           Inl ew \<Rightarrow> Inl ew
         | Inr w4 \<Rightarrow> Inr (print ''## Processing complete. Exiting.'' w4))))))"

text \<open>Lines 200 to 209: the three partitions of the derived rows of a loaded table.\<close>

definition partitions :: "'g library \<Rightarrow> 'g \<Rightarrow> frame \<Rightarrow> error + frame \<times> frame \<times> frame" where
  "partitions lib g df =
     (case derive df of Inl e \<Rightarrow> Inl e | Inr d \<Rightarrow> shuffle_split lib g d)"

text \<open>The script, from the parsed arguments on.\<close>

definition main :: "'g library \<Rightarrow> args \<Rightarrow> 'g world \<Rightarrow> 'g outcome" where
  "main lib a w =
     (case read_csv lib w (path_join (filepath a) (filename a)) of
        Inl e \<Rightarrow> Inl (e, w)
      | Inr df \<Rightarrow>
          (case partitions lib (np_random w) df of
             Inl e \<Rightarrow> Inl (e, w)
           | Inr parts \<Rightarrow> local_store a parts w))"

subsection \<open>Notions used to state the properties\<close>

text \<open>
  \<open>stack a b\<close> puts the rows of \<open>b\<close> under the rows of \<open>a\<close>, column by column. It is
  not an operation of the script; it states that partitions together give a frame back.
\<close>

definition stack :: "frame \<Rightarrow> frame \<Rightarrow> frame" where
  "stack a b =
     \<lparr>index = index a @ index b,
      columns = map (\<lambda>(c, c'). c\<lparr>cells := cells c @ cells c'\<rparr>) (zip (columns a) (columns b))\<rparr>"

definition input_path :: "args \<Rightarrow> string" where
  "input_path a = path_join (filepath a) (filename a)"

definition output_paths :: "args \<Rightarrow> string list" where
  "output_paths a = [train_path a, validation_path a, test_y_path a, test_x_path a]"

text \<open>The column labels the script looks up by name.\<close>

definition fixed_lookups :: "string list" where
  "fixed_lookups = [''pdays'', ''job''] @ pruned @ label_cols"

text \<open>The row counts of three partitions.\<close>

definition sizes :: "frame \<times> frame \<times> frame \<Rightarrow> nat \<times> nat \<times> nat" where
  "sizes parts = (case parts of (a, b, c) \<Rightarrow> (len a, len b, len c))"

text \<open>
  The cut points as the specification words them: the floor of 0.7 times \<open>n\<close> and of
  0.9 times \<open>n\<close>, in exact arithmetic.
\<close>

definition spec_cut70 :: "nat \<Rightarrow> nat" where
  "spec_cut70 n = nat \<lfloor>(7 / 10 :: rat) * of_nat n\<rfloor>"

definition spec_cut90 :: "nat \<Rightarrow> nat" where
  "spec_cut90 n = nat \<lfloor>(9 / 10 :: rat) * of_nat n\<rfloor>"

text \<open>
  Labels of feature columns: none of the six pruned columns and neither label indicator.
  A frame in label-first layout: one or more leading columns labelled \<open>y_yes\<close>, then
  feature columns only. A frame with a single label column first: the first column is
  labelled \<open>y_yes\<close> and is a 0/1 indicator, all others are feature columns.
\<close>

definition feature_labels :: "string list \<Rightarrow> bool" where
  "feature_labels ls = (set ls \<inter> (set pruned \<union> set label_cols) = {})"



text \<open>
  The encoded table \<open>d\<close> of a loaded table \<open>df\<close> has expanded every string-typed column:
  no object column is left in \<open>d\<close>, and every object column of the normalized table that
  is neither pruned nor overwritten by an indicator has, for each of its levels, its 0/1
  column in \<open>d\<close>.
\<close>

definition encoded_all :: "frame \<Rightarrow> frame \<Rightarrow> bool" where
  "encoded_all df d =
     (list_all (\<lambda>c. dtype c \<noteq> Object) (columns d)
      \<and> list_all (\<lambda>c. dtype c = Object
                      \<and> label c \<notin> set pruned \<union> {''no_previous_contact'', ''not_working''}
                    \<longrightarrow> list_all (\<lambda>l. dummy_column c l \<in> set (columns d)) (levels (cells c)))
           (columns (normalize df)))"

definition file_at :: "string \<Rightarrow> 'g world \<Rightarrow> cell list list option" where
  "file_at p w = files w p"



subsection \<open>Example inputs\<close>

text \<open>
  A table of ten rows with the columns the script names; the same table with a column of
  its own labelled \<open>y_yes\<close>; a one-row table whose job value carries a trailing dot and
  which lacks the columns to prune; a table of ninety rows.
\<close>

definition ex_floats :: "cell list" where
  "ex_floats = [FloatC 1, FloatC 2, FloatC 3, FloatC 4, FloatC 5,
                FloatC 6, FloatC 7, FloatC 8, FloatC 9, FloatC 10]"

definition ex_table :: frame where
  "ex_table =
     \<lparr>index = [0, 1, 2, 3, 4, 5, 6, 7, 8, 9],
      columns =
        [\<lparr>label = ''pdays'', dtype = Int64,
          cells = [IntC 999, IntC 3, IntC 999, IntC 6, IntC 999,
                   IntC 999, IntC 0, IntC 999, IntC 999, IntC 12]\<rparr>,
         \<lparr>label = ''job'', dtype = Object,
          cells = [StrC ''admin.'', StrC ''student'', StrC ''retired'', StrC ''admin.'',
                   StrC ''unemployed'', StrC ''student'', StrC ''admin.'', NaN,
                   StrC ''retired'', StrC ''admin.'']\<rparr>,
         \<lparr>label = ''duration'', dtype = Int64,
          cells = [IntC 10, IntC 20, IntC 30, IntC 40, IntC 50,
                   IntC 60, IntC 70, IntC 80, IntC 90, IntC 100]\<rparr>,
         \<lparr>label = ''emp.var.rate'', dtype = Float64, cells = ex_floats\<rparr>,
         \<lparr>label = ''cons.price.idx'', dtype = Float64, cells = ex_floats\<rparr>,
         \<lparr>label = ''cons.conf.idx'', dtype = Float64, cells = ex_floats\<rparr>,
         \<lparr>label = ''euribor3m'', dtype = Float64, cells = ex_floats\<rparr>,
         \<lparr>label = ''nr.employed'', dtype = Float64, cells = ex_floats\<rparr>,
         \<lparr>label = ''y'', dtype = Object,
          cells = [StrC ''no'', StrC ''yes'', StrC ''no'', StrC ''no'', StrC ''yes'',
                   StrC ''no'', StrC ''no'', StrC ''no'', StrC ''yes'', StrC ''no'']\<rparr>]\<rparr>"

definition ex_own_label :: frame where
  "ex_own_label =
     ex_table\<lparr>columns :=
        \<lparr>label = ''y_yes'', dtype = Int64,
         cells = [IntC 8, IntC 8, IntC 8, IntC 8, IntC 8, IntC 8, IntC 8, IntC 8, IntC 8, IntC 8]\<rparr>
        # columns ex_table\<rparr>"

definition ex_dotted_job :: frame where
  "ex_dotted_job =
     \<lparr>index = [0],
      columns = [\<lparr>label = ''pdays'', dtype = Int64, cells = [IntC 5]\<rparr>,
                 \<lparr>label = ''job'', dtype = Object, cells = [StrC ''student.'']\<rparr>]\<rparr>"

definition ex_ninety :: frame where
  "ex_ninety =
     \<lparr>index = [0..<90],
      columns =
        [\<lparr>label = ''pdays'', dtype = Int64, cells = replicate 90 (IntC 999)\<rparr>,
         \<lparr>label = ''job'', dtype = Object, cells = replicate 90 (StrC ''admin.'')\<rparr>,
         \<lparr>label = ''duration'', dtype = Int64, cells = replicate 90 (IntC 60)\<rparr>,
         \<lparr>label = ''emp.var.rate'', dtype = Float64, cells = replicate 90 (FloatC 1)\<rparr>,
         \<lparr>label = ''cons.price.idx'', dtype = Float64, cells = replicate 90 (FloatC 1)\<rparr>,
         \<lparr>label = ''cons.conf.idx'', dtype = Float64, cells = replicate 90 (FloatC 1)\<rparr>,
         \<lparr>label = ''euribor3m'', dtype = Float64, cells = replicate 90 (FloatC 1)\<rparr>,
         \<lparr>label = ''nr.employed'', dtype = Float64, cells = replicate 90 (FloatC 1)\<rparr>,
         \<lparr>label = ''y'', dtype = Object,
          cells = replicate 45 (StrC ''yes'') @ replicate 45 (StrC ''no'')\<rparr>]\<rparr>"

text \<open>
  The content of a CSV file that holds a table: the header line, then the rows. The
  example parser loads the files that hold the three small example tables and refuses
  every other content. The example generator draws the reversed or the natural order
  according to the parity of its state.
\<close>

definition csv_of :: "frame \<Rightarrow> cell list list" where
  "csv_of df = map StrC (labels df) # csv_rows df"

definition ex_parse_csv :: "cell list list \<Rightarrow> frame option" where
  "ex_parse_csv content =
     (case filter (\<lambda>df. csv_of df = content) [ex_table, ex_own_label, ex_dotted_job] of
        [] \<Rightarrow> None
      | df # _ \<Rightarrow> Some df)"

definition ex_library :: "nat library" where
  "ex_library =
     \<lparr>RandomState = (\<lambda>seed. seed),
      choice = (\<lambda>rs n. if even rs then rev [0..<n] else [0..<n]),
      parse_csv = ex_parse_csv\<rparr>"

text \<open>
  A world in which the ten-row table lies at the default input path and the three output
  directories exist; the same world before the platform has created the three output
  directories; the same world with the directory \<open>test\<close> missing.
\<close>

definition ex_world :: "nat world" where
  "ex_world =
     \<lparr>files = [''/opt/ml/processing/input/bank-additional-full.csv'' \<mapsto> csv_of ex_table],
      dirs = {''/opt/ml/processing/input'', ''/opt/ml/processing/output'',
              ''/opt/ml/processing/output/train'', ''/opt/ml/processing/output/validation'',
              ''/opt/ml/processing/output/test''},
      stdout = [],
      np_random = 7\<rparr>"

definition ex_world_empty_output :: "nat world" where
  "ex_world_empty_output =
     ex_world\<lparr>dirs := {''/opt/ml/processing/input'', ''/opt/ml/processing/output''}\<rparr>"

definition ex_world_no_test :: "nat world" where
  "ex_world_no_test =
     ex_world\<lparr>dirs := {''/opt/ml/processing/input'', ''/opt/ml/processing/output'',
                        ''/opt/ml/processing/output/train'',
                        ''/opt/ml/processing/output/validation''}\<rparr>"

text \<open>
  A second world with the same input file, another state of the global generator, earlier
  output on the console and a stale file at the path of \<open>train.csv\<close>; a world whose
  input file lacks the six columns to prune; and one whose input file has a column
  labelled \<open>y_yes\<close>.
\<close>

definition ex_world_later :: "nat world" where
  "ex_world_later =
     ex_world\<lparr>files := [''/opt/ml/processing/input/bank-additional-full.csv'' \<mapsto> csv_of ex_table,
                         ''/opt/ml/processing/output/train/train.csv'' \<mapsto> [[IntC 5]]],
               stdout := [''earlier run''],
               np_random := 8\<rparr>"

definition ex_world_short :: "nat world" where
  "ex_world_short =
     ex_world\<lparr>files := [''/opt/ml/processing/input/bank-additional-full.csv'' \<mapsto> csv_of ex_dotted_job]\<rparr>"

definition ex_world_own_label :: "nat world" where
  "ex_world_own_label =
     ex_world\<lparr>files := [''/opt/ml/processing/input/bank-additional-full.csv'' \<mapsto> csv_of ex_own_label]\<rparr>"

section \<open>Properties\<close>

subsection \<open>The cut points \<^verbatim>\<open>int(0.7 * n)\<close> and \<^verbatim>\<open>int(0.9 * n)\<close>\<close>

declare bit_length.simps [simp del]

lemma bit_length_le: "p < 2 ^ k \<Longrightarrow> bit_length p \<le> k"
proof (induction k arbitrary: p)
  case 0
  then show ?case by (simp add: bit_length.simps)
next
  case (Suc k)
  show ?case
  proof (cases "p = 0")
    case True
    then show ?thesis by (simp add: bit_length.simps)
  next
    case False
    from Suc.prems have "p div 2 < 2 ^ k" by simp
    then have "bit_length (p div 2) \<le> k" by (rule Suc.IH)
    with False show ?thesis by (subst bit_length.simps) simp
  qed
qed

lemma round_half_even_cases:
  "round_half_even s p = (p div 2 ^ s) * 2 ^ s \<or>
   (round_half_even s p = (p div 2 ^ s + 1) * 2 ^ s \<and> 0 < p mod 2 ^ s)"
proof (cases "2 ^ s < 2 * (p mod 2 ^ s) \<or> (2 * (p mod 2 ^ s) = 2 ^ s \<and> odd (p div 2 ^ s))")
  case True
  then have "0 < p mod 2 ^ s" by (cases "p mod 2 ^ s = 0") auto
  moreover from True have "round_half_even s p = (p div 2 ^ s + 1) * 2 ^ s"
    unfolding round_half_even_def Let_def by (simp only: if_True)
  ultimately show ?thesis by simp
next
  case False
  then have "round_half_even s p = (p div 2 ^ s) * 2 ^ s"
    unfolding round_half_even_def Let_def by (simp only: if_False)
  then show ?thesis by simp
qed

lemma round_half_even_le:
  assumes "2 ^ s dvd k" and "p \<le> k"
  shows "round_half_even s p \<le> k"
proof -
  from assms(1) obtain k' where k: "k = 2 ^ s * k'" by (auto simp: dvd_def)
  define q where "q = p div 2 ^ s"
  define r where "r = p mod 2 ^ s"
  have p: "p = q * 2 ^ s + r"
    unfolding q_def r_def by (rule div_mult_mod_eq [symmetric])
  have "p div 2 ^ s \<le> k div 2 ^ s" using assms(2) by (rule div_le_mono)
  then have qk: "q \<le> k'" by (simp add: q_def k)
  from round_half_even_cases [of s p]
  have "round_half_even s p = q * 2 ^ s \<or> (round_half_even s p = (q + 1) * 2 ^ s \<and> 0 < r)"
    by (simp only: q_def r_def)
  then show ?thesis
  proof (elim disjE conjE)
    assume 1: "round_half_even s p = q * 2 ^ s"
    have "q * 2 ^ s \<le> k' * 2 ^ s" using qk by (rule mult_le_mono1)
    with 1 show ?thesis by (simp only: k mult.commute)
  next
    assume 2: "round_half_even s p = (q + 1) * 2 ^ s" and "0 < r"
    have "q < k'"
    proof (rule ccontr)
      assume "\<not> q < k'"
      with qk have "q = k'" by simp
      with p k \<open>0 < r\<close> assms(2) show False by simp
    qed
    then have "q + 1 \<le> k'" by simp
    then have "(q + 1) * 2 ^ s \<le> k' * 2 ^ s" by (rule mult_le_mono1)
    with 2 show ?thesis by (simp only: k mult.commute)
  qed
qed

lemma round_half_even_ge:
  assumes "2 ^ s dvd k" and "k \<le> p"
  shows "k \<le> round_half_even s p"
proof -
  from assms(1) obtain k' where k: "k = 2 ^ s * k'" by (auto simp: dvd_def)
  define q where "q = p div 2 ^ s"
  have "k div 2 ^ s \<le> p div 2 ^ s" using assms(2) by (rule div_le_mono)
  then have "k' \<le> q" by (simp add: q_def k)
  then have low: "k' * 2 ^ s \<le> q * 2 ^ s" by (rule mult_le_mono1)
  have "q * 2 ^ s \<le> round_half_even s p"
    using round_half_even_cases [of s p] unfolding q_def by auto
  with low have "k' * 2 ^ s \<le> round_half_even s p" by (rule order_trans)
  then show ?thesis by (simp only: k mult.commute)
qed

lemma shift_dvd:
  assumes "p < 2 ^ 106"
  shows "(2::nat) ^ (bit_length p - 53) dvd 2 ^ 53 * k"
proof -
  have "bit_length p \<le> 106" using assms by (rule bit_length_le)
  then have "bit_length p - 53 \<le> 53" by simp
  then have "(2::nat) ^ (bit_length p - 53) dvd 2 ^ 53" by (rule le_imp_power_dvd)
  then show ?thesis by (rule dvd_mult2)
qed

lemma round53_le: "p < 2 ^ 106 \<Longrightarrow> p \<le> 2 ^ 53 * k \<Longrightarrow> round53 p \<le> 2 ^ 53 * k"
  unfolding round53_def by (rule round_half_even_le [OF shift_dvd])

lemma round53_ge: "p < 2 ^ 106 \<Longrightarrow> 2 ^ 53 * k \<le> p \<Longrightarrow> 2 ^ 53 * k \<le> round53 p"
  unfolding round53_def by (rule round_half_even_ge [OF shift_dvd])

lemma prod_bound:
  assumes "n < 2 ^ 53" and "m < (2::nat) ^ 53"
  shows "m * n < 2 ^ 106"
proof -
  have "m * n \<le> m * 2 ^ 53" using assms(1) by simp
  also have "\<dots> < 2 ^ 53 * 2 ^ 53" using assms(2) by simp
  finally show ?thesis by simp
qed

lemma cut90_le:
  assumes "n < 2 ^ 53"
  shows "cut90 n \<le> n"
proof -
  have b: "double_0_9 * n < 2 ^ 106"
    using assms by (rule prod_bound) (simp add: double_0_9_def)
  have "double_0_9 * n \<le> 2 ^ 53 * n" by (simp add: double_0_9_def)
  with b have "round53 (double_0_9 * n) \<le> 2 ^ 53 * n" by (rule round53_le)
  then have "round53 (double_0_9 * n) div 2 ^ 53 \<le> (2 ^ 53 * n) div 2 ^ 53"
    by (rule div_le_mono)
  then show ?thesis by (simp add: cut90_def float_mul_trunc_def)
qed

lemma cut_small: "n < 5 \<Longrightarrow> cut70 n \<le> cut90 n"
proof -
  assume "n < 5"
  then consider "n = 0" | "n = 1" | "n = 2" | "n = 3" | "n = 4" by linarith
  then show ?thesis
    by cases
      (simp_all add: cut70_def cut90_def float_mul_trunc_def round53_def round_half_even_def
         double_0_7_def double_0_9_def Let_def bit_length.simps)
qed

lemma cut70_le_cut90:
  assumes "n < 2 ^ 53"
  shows "cut70 n \<le> cut90 n"
proof (cases "n < 5")
  case True
  then show ?thesis by (rule cut_small)
next
  case False
  define k where "k = (double_0_9 * n) div 2 ^ 53"
  have b7: "double_0_7 * n < 2 ^ 106"
    using assms by (rule prod_bound) (simp add: double_0_7_def)
  have b9: "double_0_9 * n < 2 ^ 106"
    using assms by (rule prod_bound) (simp add: double_0_9_def)
  have low: "2 ^ 53 * k \<le> double_0_9 * n"
    by (simp add: k_def)
  have "double_0_9 * n < 2 ^ 53 * k + 2 ^ 53"
  proof -
    have "double_0_9 * n = 2 ^ 53 * k + (double_0_9 * n) mod 2 ^ 53"
      by (simp add: k_def)
    moreover have "(double_0_9 * n) mod 2 ^ 53 < 2 ^ 53" by simp
    ultimately show ?thesis by linarith
  qed
  moreover have "double_0_7 * n + 2 ^ 53 \<le> double_0_9 * n"
  proof -
    have "5 \<le> n" using False by simp
    then have "1801439850948199 * 5 \<le> 1801439850948199 * n" by (rule mult_le_mono2)
    then have "(2::nat) ^ 53 \<le> 1801439850948199 * n" by simp
    then show ?thesis by (simp add: double_0_7_def double_0_9_def)
  qed
  ultimately have high: "double_0_7 * n \<le> 2 ^ 53 * k" by linarith
  from b7 high have "round53 (double_0_7 * n) \<le> 2 ^ 53 * k" by (rule round53_le)
  then have "round53 (double_0_7 * n) div 2 ^ 53 \<le> (2 ^ 53 * k) div 2 ^ 53"
    by (rule div_le_mono)
  then have a: "cut70 n \<le> k" by (simp add: cut70_def float_mul_trunc_def)
  from b9 low have "2 ^ 53 * k \<le> round53 (double_0_9 * n)" by (rule round53_ge)
  then have "(2 ^ 53 * k) div 2 ^ 53 \<le> round53 (double_0_9 * n) div 2 ^ 53"
    by (rule div_le_mono)
  then have "k \<le> cut90 n" by (simp add: cut90_def float_mul_trunc_def)
  with a show ?thesis by simp
qed

text \<open>The same cut points against the exact floors of \<open>7n/10\<close> and \<open>9n/10\<close>.\<close>

lemma round53_upper:
  assumes "p < 2 ^ 101"
  shows "round53 p \<le> p + 2 ^ 48"
proof -
  define s where "s = bit_length p - 53"
  have "bit_length p \<le> 101" using assms by (rule bit_length_le)
  then have "s \<le> 48" by (simp add: s_def)
  then have pw: "(2::nat) ^ s \<le> 2 ^ 48" by (rule power_increasing) simp
  have a: "(p div 2 ^ s) * 2 ^ s \<le> p" by simp
  then have "(p div 2 ^ s) * 2 ^ s \<le> p + 2 ^ s" by (rule trans_le_add1)
  moreover from a have "(p div 2 ^ s + 1) * 2 ^ s \<le> p + 2 ^ s" by (simp add: algebra_simps)
  ultimately have "round_half_even s p \<le> p + 2 ^ s"
    using round_half_even_cases [of s p] by (elim disjE conjE) simp_all
  with pw show ?thesis by (simp add: round53_def s_def)
qed

lemma spec_cut_div: "spec_cut70 n = (7 * n) div 10" "spec_cut90 n = (9 * n) div 10"
proof -
  have "\<lfloor>(7 / 10 :: rat) * of_nat n\<rfloor> = \<lfloor>(of_int (7 * int n) :: rat) / of_int 10\<rfloor>" by simp
  also have "\<dots> = (7 * int n) div 10" by (rule floor_divide_of_int_eq)
  finally show "spec_cut70 n = (7 * n) div 10"
    by (simp add: spec_cut70_def nat_div_distrib nat_mult_distrib)
  have "\<lfloor>(9 / 10 :: rat) * of_nat n\<rfloor> = \<lfloor>(of_int (9 * int n) :: rat) / of_int 10\<rfloor>" by simp
  also have "\<dots> = (9 * int n) div 10" by (rule floor_divide_of_int_eq)
  finally show "spec_cut90 n = (9 * n) div 10"
    by (simp add: spec_cut90_def nat_div_distrib nat_mult_distrib)
qed

lemma small_prod:
  assumes "n < 2 ^ 48" and "m < (2::nat) ^ 53"
  shows "m * n < 2 ^ 101" and "m * n < 2 ^ 106"
proof -
  have "m * n \<le> m * 2 ^ 48" using assms(1) by simp
  also have "\<dots> < 2 ^ 53 * 2 ^ 48" using assms(2) by simp
  finally show "m * n < 2 ^ 101" by simp
  then show "m * n < 2 ^ 106" by simp
qed

lemma cut90_exact:
  assumes n: "n < 2 ^ 48"
  shows "cut90 n = (9 * n) div 10"
proof -
  define k where "k = (9 * n) div 10"
  define r where "r = (9 * n) mod 10"
  define P where "P = double_0_9 * n"
  have kr: "9 * n = 10 * k + r" and r: "r < 10" by (simp_all add: k_def r_def)
  have b: "P < 2 ^ 101" "P < 2 ^ 106"
    unfolding P_def using n by (rule small_prod; simp add: double_0_9_def)+
  have tenP: "10 * P = 9007199254740992 * (10 * k + r) + 2 * n"
    unfolding P_def double_0_9_def kr [symmetric] by simp
  have n': "n < 281474976710656" using n by simp
  have low: "2 ^ 53 * k \<le> P" using tenP by simp
  from b(2) low have "2 ^ 53 * k \<le> round53 P" by (rule round53_ge)
  then have "(2 ^ 53 * k) div 2 ^ 53 \<le> round53 P div 2 ^ 53" by (rule div_le_mono)
  then have ge: "k \<le> cut90 n" by (simp add: cut90_def float_mul_trunc_def P_def)
  have "round53 P \<le> P + 2 ^ 48" using b(1) by (rule round53_upper)
  moreover have "P + 2 ^ 48 < (k + 1) * 2 ^ 53" using tenP r n' by simp
  ultimately have "round53 P < (k + 1) * 2 ^ 53" by simp
  then have "round53 P div 2 ^ 53 < k + 1" by (rule less_mult_imp_div_less)
  then have "cut90 n \<le> k" by (simp add: cut90_def float_mul_trunc_def P_def)
  with ge show ?thesis by (simp add: k_def)
qed

lemma cut70_bounds:
  assumes n: "n < 2 ^ 48"
  shows "cut70 n \<le> (7 * n) div 10" and "(7 * n) div 10 \<le> cut70 n + 1"
    and "\<not> 10 dvd n \<Longrightarrow> cut70 n = (7 * n) div 10"
proof -
  define k where "k = (7 * n) div 10"
  define r where "r = (7 * n) mod 10"
  define P where "P = double_0_7 * n"
  have kr: "7 * n = 10 * k + r" and r: "r < 10" by (simp_all add: k_def r_def)
  have b: "P < 2 ^ 101" "P < 2 ^ 106"
    unfolding P_def using n by (rule small_prod; simp add: double_0_7_def)+
  have tenP: "10 * P + 4 * n = 9007199254740992 * (10 * k + r)"
    unfolding P_def double_0_7_def kr [symmetric] by simp
  have n': "n < 281474976710656" using n by simp
  have c: "cut70 n = round53 P div 2 ^ 53" by (simp add: cut70_def float_mul_trunc_def P_def)
  show up: "cut70 n \<le> (7 * n) div 10"
  proof (cases "r = 0")
    case True
    with tenP have "P \<le> 2 ^ 53 * k" by simp
    with b(2) have "round53 P \<le> 2 ^ 53 * k" by (rule round53_le)
    then have "round53 P div 2 ^ 53 \<le> (2 ^ 53 * k) div 2 ^ 53" by (rule div_le_mono)
    then show ?thesis by (simp add: c k_def)
  next
    case False
    have "round53 P \<le> P + 2 ^ 48" using b(1) by (rule round53_upper)
    moreover have "P + 2 ^ 48 < (k + 1) * 2 ^ 53" using tenP r n' by simp
    ultimately have "round53 P < (k + 1) * 2 ^ 53" by simp
    then have "round53 P div 2 ^ 53 < k + 1" by (rule less_mult_imp_div_less)
    then show ?thesis by (simp add: c k_def)
  qed
  show "(7 * n) div 10 \<le> cut70 n + 1"
  proof (cases "k = 0")
    case True
    then show ?thesis by (simp add: k_def)
  next
    case False
    then have "2 ^ 53 * (k - 1) \<le> P" using tenP n' by simp
    with b(2) have "2 ^ 53 * (k - 1) \<le> round53 P" by (rule round53_ge)
    then have "(2 ^ 53 * (k - 1)) div 2 ^ 53 \<le> round53 P div 2 ^ 53" by (rule div_le_mono)
    then show ?thesis using False by (simp add: c k_def)
  qed
  show "cut70 n = (7 * n) div 10" if nd: "\<not> 10 dvd n"
  proof -
    have "r \<noteq> 0"
    proof
      assume "r = 0"
      then have "(7 * n) mod 10 = 0" by (simp add: r_def)
      then have "n mod 10 = 0" by presburger
      then have "10 dvd n" by (simp add: dvd_eq_mod_eq_0)
      with nd show False by simp
    qed
    then have "2 ^ 53 * k \<le> P" using tenP n' by simp
    with b(2) have "2 ^ 53 * k \<le> round53 P" by (rule round53_ge)
    then have "(2 ^ 53 * k) div 2 ^ 53 \<le> round53 P div 2 ^ 53" by (rule div_le_mono)
    then have "k \<le> cut70 n" by (simp add: c)
    with up show ?thesis by (simp add: k_def)
  qed
qed

subsection \<open>Slices and permutations\<close>

lemma slice_partition:
  assumes "a \<le> b"
  shows "slice 0 a xs @ slice a b xs @ slice b (length xs) xs = xs"
proof -
  have "take a xs @ take (b - a) (drop a xs) = take (a + (b - a)) xs"
    by (simp add: take_add)
  also have "\<dots> = take b xs" using assms by simp
  finally have "take a xs @ take (b - a) (drop a xs) @ drop b xs = xs"
    by (metis append_assoc append_take_drop_id)
  then show ?thesis by (simp add: slice_def)
qed

lemma length_slices:
  assumes "a \<le> b" and "b \<le> length xs"
  shows "length (slice 0 a xs) = a" and "length (slice a b xs) = b - a"
    and "length (slice b (length xs) xs) = length xs - b"
  using assms by (simp_all add: slice_def)

lemma mset_map_nth_perm:
  assumes "mset locs = mset [0..<length xs]"
  shows "mset (map (nth xs) locs) = mset xs"
proof -
  have "mset (map (nth xs) locs) = image_mset (nth xs) (mset locs)" by simp
  also have "\<dots> = image_mset (nth xs) (mset [0..<length xs])" using assms by simp
  also have "\<dots> = mset (map (nth xs) [0..<length xs])" by simp
  also have "\<dots> = mset xs" by (simp add: map_nth)
  finally show ?thesis .
qed

lemma perm_in_range:
  assumes "mset locs = mset [0..<n]"
  shows "list_all (\<lambda>i. i < n) locs" and "length locs = n"
proof -
  have "set locs = set [0..<n]" using assms by (rule mset_eq_setD)
  then show "list_all (\<lambda>i. i < n) locs" by (auto simp: list_all_iff)
  have "size (mset locs) = size (mset [0..<n])" using assms by simp
  then show "length locs = n" by simp
qed

subsection \<open>Row labels and column labels through the steps\<close>

lemma index_normalize: "index (normalize df) = index df"
  by (simp add: normalize_def replace_regex_def)

lemma labels_replace_regex: "labels (replace_regex sub df) = labels df"
  by (simp add: labels_def replace_regex_def comp_def if_distrib [of label] cong: if_cong)

lemma labels_normalize: "labels (normalize df) = labels df"
  by (simp add: normalize_def labels_replace_regex)

lemma labels_setitem_list:
  "labels (setitem df key vs) = (if key \<in> set (labels df) then labels df else labels df @ [key])"
proof -
  have "label (if label c = key then c\<lparr>dtype := Int64, cells := vs\<rparr> else c) = label c"
    for c :: column
    by simp
  then show ?thesis by (simp add: setitem_def labels_def comp_def)
qed

lemma labels_setitem: "set (labels (setitem df key vs)) = insert key (set (labels df))"
  by (auto simp: labels_setitem_list)

lemma index_setitem: "index (setitem df key vs) = index df"
  by (simp add: setitem_def)

lemma add_indicator_Inr:
  assumes "add_indicator new src test df = Inr df'"
  shows "\<exists>c. getitem df src = Inr [c] \<and> df' = setitem df new (map (\<lambda>v. astype_int (test v)) (cells c))"
  using assms by (auto simp: add_indicator_def split: sum.splits list.splits)

lemma add_indicator_index: "add_indicator new src test df = Inr df' \<Longrightarrow> index df' = index df"
  by (auto dest!: add_indicator_Inr simp: index_setitem)

lemma add_indicator_labels:
  "add_indicator new src test df = Inr df' \<Longrightarrow> set (labels df') = insert new (set (labels df))"
  by (auto dest!: add_indicator_Inr simp: labels_setitem)

lemma add_indicators_Inr:
  assumes "add_indicators df = Inr df2"
  shows "\<exists>df1. add_indicator ''no_previous_contact'' ''pdays'' (eq_scalar 999) df = Inr df1
           \<and> add_indicator ''not_working'' ''job'' (isin not_working_jobs) df1 = Inr df2"
  using assms by (auto simp: add_indicators_def split: sum.splits)

lemma add_indicators_index: "add_indicators df = Inr df2 \<Longrightarrow> index df2 = index df"
  by (auto dest!: add_indicators_Inr simp: add_indicator_index)

lemma add_indicators_labels:
  "add_indicators df = Inr df2 \<Longrightarrow>
     set (labels df2) = insert ''not_working'' (insert ''no_previous_contact'' (set (labels df)))"
  by (auto dest!: add_indicators_Inr simp: add_indicator_labels)

lemma drop_labels_Inr:
  assumes "drop_labels names df = Inr df'"
  shows "set names \<subseteq> set (labels df)"
    and "df' = df\<lparr>columns := filter (\<lambda>c. label c \<notin> set names) (columns df)\<rparr>"
proof -
  from assms have f: "filter (\<lambda>n. n \<notin> set (labels df)) names = []"
    by (auto simp: drop_labels_def split: list.splits)
  then show "set names \<subseteq> set (labels df)" by (auto simp: filter_empty_conv)
  from assms f show "df' = df\<lparr>columns := filter (\<lambda>c. label c \<notin> set names) (columns df)\<rparr>"
    by (simp add: drop_labels_def)
qed

lemma drop_labels_succeeds:
  assumes "set names \<subseteq> set (labels df)"
  shows "drop_labels names df = Inr (df\<lparr>columns := filter (\<lambda>c. label c \<notin> set names) (columns df)\<rparr>)"
proof -
  have "filter (\<lambda>n. n \<notin> set (labels df)) names = []"
    using assms by (auto simp: filter_empty_conv)
  then show ?thesis by (simp add: drop_labels_def)
qed

lemma drop_labels_labels:
  "drop_labels names df = Inr df' \<Longrightarrow> labels df' = filter (\<lambda>l. l \<notin> set names) (labels df)"
  by (drule drop_labels_Inr(2)) (simp add: labels_def filter_map comp_def)

lemma drop_labels_index: "drop_labels names df = Inr df' \<Longrightarrow> index df' = index df"
  by (drule drop_labels_Inr(2)) simp

lemma index_get_dummies: "index (get_dummies df) = index df"
  by (simp add: get_dummies_def)

lemma dummy_label_underscore: "CHR ''_'' \<in> set (dummy_label p l)"
  by (simp add: dummy_label_def)

lemma pruned_no_underscore: "n \<in> set pruned \<Longrightarrow> CHR ''_'' \<notin> set n"
  by (auto simp: pruned_def)

lemma labels_get_dummies:
  assumes "l \<in> set (labels (get_dummies df))"
  shows "l \<in> set (labels df) \<or> CHR ''_'' \<in> set l"
  using assms
  by (auto simp: get_dummies_def labels_def get_dummies_1d_def dummy_column_def dummy_label_def)

lemma derive_Inr:
  assumes "derive df = Inr d"
  shows "\<exists>df2 df3. add_indicators (normalize df) = Inr df2 \<and> drop_labels pruned df2 = Inr df3
           \<and> d = get_dummies df3"
  using assms by (auto simp: derive_def split: sum.splits)

lemma derive_index: "derive df = Inr d \<Longrightarrow> index d = index df"
  by (auto dest!: derive_Inr
      simp: index_get_dummies drop_labels_index add_indicators_index index_normalize)

lemma derive_no_pruned:
  assumes "derive df = Inr d"
  shows "set (labels d) \<inter> set pruned = {}"
proof -
  from assms obtain df2 df3 where
    dr: "drop_labels pruned df2 = Inr df3" and d: "d = get_dummies df3"
    by (auto dest!: derive_Inr)
  have "l \<notin> set pruned" if "l \<in> set (labels d)" for l
  proof
    assume p: "l \<in> set pruned"
    from that d have "l \<in> set (labels df3) \<or> CHR ''_'' \<in> set l"
      by (auto dest: labels_get_dummies)
    then show False
    proof
      assume "l \<in> set (labels df3)"
      with dr p show False by (simp add: drop_labels_labels)
    next
      assume "CHR ''_'' \<in> set l"
      with p show False by (auto dest: pruned_no_underscore)
    qed
  qed
  then show ?thesis by auto
qed

subsection \<open>The two regular expressions\<close>

lemma re_sub_us_end_snoc_us: "re_sub_us_end (s @ [CHR ''_'']) = s"
  by (induction s) (auto simp: at_dollar_def LF_def)

lemma re_sub_us_end_snoc_us_lf: "re_sub_us_end (s @ [CHR ''_'', LF]) = s @ [LF]"
  by (induction s) (auto simp: at_dollar_def LF_def)

lemma re_sub_us_end_id:
  "s = [] \<or> last s \<noteq> CHR ''_'' \<Longrightarrow> \<forall>u. s \<noteq> u @ [CHR ''_'', LF] \<Longrightarrow> re_sub_us_end s = s"
proof (induction s)
  case Nil
  then show ?case by simp
next
  case (Cons c cs)
  have no_match: "\<not> (c = CHR ''_'' \<and> at_dollar cs)"
  proof
    assume m: "c = CHR ''_'' \<and> at_dollar cs"
    then consider "cs = []" | "cs = [LF]" by (auto simp: at_dollar_def)
    then show False
    proof cases
      case 1
      with m Cons.prems(1) show False by simp
    next
      case 2
      with m have "c # cs = [] @ [CHR ''_'', LF]" by simp
      with Cons.prems(2) show False by blast
    qed
  qed
  have p1: "cs = [] \<or> last cs \<noteq> CHR ''_''"
    using Cons.prems(1) by (cases cs) auto
  have p2: "\<forall>u. cs \<noteq> u @ [CHR ''_'', LF]"
  proof
    fix u
    show "cs \<noteq> u @ [CHR ''_'', LF]"
    proof
      assume "cs = u @ [CHR ''_'', LF]"
      then have "c # cs = (c # u) @ [CHR ''_'', LF]" by simp
      with Cons.prems(2) show False by blast
    qed
  qed
  from Cons.IH [OF p1 p2] no_match show ?case by simp
qed

lemma re_sub_dot_snoc:
  "re_sub_dot (t @ [c]) = re_sub_dot t @ [if c = CHR ''.'' then CHR ''_'' else c]"
  by (simp add: re_sub_dot_def)

lemma normalize_value_char:
  "normalize_value s =
     (if s \<noteq> [] \<and> last s = LF then spec_normalize_value (butlast s) @ [LF]
      else spec_normalize_value s)"
proof (cases s rule: rev_cases)
  case Nil
  then show ?thesis
    by (simp add: normalize_value_def spec_normalize_value_def spec_strip_trailing_def re_sub_dot_def)
next
  case (snoc t c)
  define t' where "t' = re_sub_dot t"
  show ?thesis
  proof (cases "c = LF")
    case True
    then have nv: "normalize_value s = re_sub_us_end (t' @ [LF])"
      using snoc by (simp add: normalize_value_def re_sub_dot_snoc t'_def LF_def)
    show ?thesis
    proof (cases "t' \<noteq> [] \<and> last t' = CHR ''_''")
      case True
      then obtain u where u: "t' = u @ [CHR ''_'']"
        by (metis append_butlast_last_id)
      then have "re_sub_us_end (t' @ [LF]) = u @ [LF]"
        using re_sub_us_end_snoc_us_lf [of u] by simp
      moreover have "spec_normalize_value t = u"
        using u by (simp add: spec_normalize_value_def spec_strip_trailing_def t'_def [symmetric])
      ultimately show ?thesis using nv snoc \<open>c = LF\<close> by simp
    next
      case False
      have "re_sub_us_end (t' @ [LF]) = t' @ [LF]"
      proof (rule re_sub_us_end_id)
        show "t' @ [LF] = [] \<or> last (t' @ [LF]) \<noteq> CHR ''_''" by (simp add: LF_def)
        show "\<forall>u. t' @ [LF] \<noteq> u @ [CHR ''_'', LF]"
        proof (intro allI notI)
          fix u assume "t' @ [LF] = u @ [CHR ''_'', LF]"
          then have "t' @ [LF] = (u @ [CHR ''_'']) @ [LF]" by simp
          then have "t' = u @ [CHR ''_'']" by (simp only: append1_eq_conv)
          with False show False by simp
        qed
      qed
      moreover have "spec_normalize_value t = t'"
        using False by (auto simp: spec_normalize_value_def spec_strip_trailing_def t'_def [symmetric])
      ultimately show ?thesis using nv snoc \<open>c = LF\<close> by simp
    qed
  next
    case False
    define c' where "c' = (if c = CHR ''.'' then CHR ''_'' else c)"
    have c'lf: "c' \<noteq> LF" using False by (auto simp: c'_def LF_def)
    have nv: "normalize_value s = re_sub_us_end (t' @ [c'])"
      using snoc by (simp add: normalize_value_def re_sub_dot_snoc t'_def c'_def)
    have sv: "spec_normalize_value s = spec_strip_trailing (t' @ [c'])"
      using snoc by (simp add: spec_normalize_value_def re_sub_dot_snoc t'_def c'_def)
    show ?thesis
    proof (cases "c' = CHR ''_''")
      case True
      then show ?thesis
        using nv sv snoc False re_sub_us_end_snoc_us [of t']
        by (simp add: spec_strip_trailing_def)
    next
      case nus: False
      have "re_sub_us_end (t' @ [c']) = t' @ [c']"
      proof (rule re_sub_us_end_id)
        show "t' @ [c'] = [] \<or> last (t' @ [c']) \<noteq> CHR ''_''" using nus by simp
        show "\<forall>u. t' @ [c'] \<noteq> u @ [CHR ''_'', LF]"
        proof (intro allI notI)
          fix u assume "t' @ [c'] = u @ [CHR ''_'', LF]"
          then have "t' @ [c'] = (u @ [CHR ''_'']) @ [LF]" by simp
          then have "c' = LF" by (simp only: append1_eq_conv)
          with c'lf show False by simp
        qed
      qed
      then show ?thesis
        using nv sv snoc False nus by (simp add: spec_strip_trailing_def)
    qed
  qed
qed

lemma replacer_normalize_value:
  "re_replacer re_sub_us_end (re_replacer re_sub_dot v) = re_replacer normalize_value v"
  by (cases v) (simp_all add: normalize_value_def)

lemma columns_normalize:
  "columns (normalize df) =
     map (\<lambda>c. if dtype c = Object then c\<lparr>cells := map (re_replacer normalize_value) (cells c)\<rparr>
              else c)
       (columns df)"
  by (simp add: normalize_def replace_regex_def comp_def replacer_normalize_value)

text \<open>
  C3, as amended. Normalization rewrites every string \<open>s\<close> of every object column to
  \<open>normalize_value s\<close> and leaves all other cells alone. \<open>normalize_value\<close> replaces every
  dot by an underscore and then removes one underscore that is the last character of the
  value or the last character before a line feed that ends the value: on a value that
  does not end in a line feed it is the specification's rule, and on \<open>t\<close> followed by a
  line feed it is that rule applied to \<open>t\<close>, followed by the line feed. In particular
  \<open>admin.\<close> becomes \<open>admin\<close> and \<open>a.b.c\<close> becomes \<open>a_b_c\<close>.
\<close>

theorem C3_normalization:
  "columns (normalize df) =
     map (\<lambda>c. if dtype c = Object then c\<lparr>cells := map (re_replacer normalize_value) (cells c)\<rparr>
              else c)
       (columns df)
   \<and> normalize_value s =
       (if s \<noteq> [] \<and> last s = LF then spec_normalize_value (butlast s) @ [LF]
        else spec_normalize_value s)
   \<and> normalize_value ''admin.'' = ''admin''
   \<and> normalize_value ''a.b.c'' = ''a_b_c''"
proof -
  have "normalize_value ''admin.'' = ''admin''"
    by (simp add: normalize_value_def re_sub_dot_def at_dollar_def LF_def)
  moreover have "normalize_value ''a.b.c'' = ''a_b_c''"
    by (simp add: normalize_value_def re_sub_dot_def at_dollar_def LF_def)
  ultimately show ?thesis
    using columns_normalize [of df] normalize_value_char [of s] by simp
qed

theorem C3_normalization_witness:
  "columns (normalize ex_dotted_job) =
     [\<lparr>label = ''pdays'', dtype = Int64, cells = [IntC 5]\<rparr>,
      \<lparr>label = ''job'', dtype = Object, cells = [StrC ''student'']\<rparr>]
   \<and> normalize_value (''no.'' @ [LF]) = ''no'' @ [LF]"
  using C3_normalization [of ex_dotted_job "''no.'' @ [LF]"]
  by (simp add: ex_dotted_job_def spec_normalize_value_def spec_strip_trailing_def re_sub_dot_def
      normalize_value_def at_dollar_def LF_def)

text \<open>
  C3 as stated fails on a value that ends in a dot followed by a line feed: the
  specification's rule keeps the underscore, the script removes it.
\<close>

theorem C3_counterexample:
  "normalize_value (''x.'' @ [LF]) = ''x'' @ [LF]
   \<and> spec_normalize_value (''x.'' @ [LF]) = ''x_'' @ [LF]
   \<and> normalize_value (''x.'' @ [LF]) \<noteq> spec_normalize_value (''x.'' @ [LF])"
  by (simp add: normalize_value_def spec_normalize_value_def spec_strip_trailing_def
      re_sub_dot_def at_dollar_def LF_def)

subsection \<open>Column access after assignment and normalization\<close>

lemmas eval_defs = main_def partitions_def local_store_def print_def store_def to_csv_def csv_rows_def
  read_csv_def dirname_def rstrip_slash_def path_join_def default_args_def final_def
  train_path_def validation_path_def test_x_path_def test_y_path_def input_path_def output_paths_def
  features_only_def label_only_def label_first_def label_cols_def shuffle_split_def
  split_def iloc_def slice_def sample_def take_rows_def derive_def add_indicators_def get_dummies_def
  get_dummies_1d_def dummy_column_def dummy_label_def levels_def bool_levels_def sorted_strings_def
  char_le_def pruned_def not_working_jobs_def add_indicator_def astype_int_def drop_labels_def
  setitem_def getitem_def normalize_def replace_regex_def at_dollar_def re_sub_dot_def LF_def
  len_def labels_def Let_def

lemmas cut_defs = cut70_def cut90_def float_mul_trunc_def round53_def round_half_even_def
  double_0_7_def double_0_9_def bit_length.simps

lemma filter_label_unique:
  assumes "distinct (map label cs)" and "key \<in> set (map label cs)"
  shows "\<exists>c. filter (\<lambda>c. label c = key) cs = [c] \<and> label c = key"
  using assms
proof (induction cs)
  case Nil
  then show ?case by simp
next
  case (Cons a cs)
  show ?case
  proof (cases "label a = key")
    case True
    with Cons.prems(1) have "key \<notin> label ` set cs" by simp
    then have "\<forall>c\<in>set cs. label c \<noteq> key" by force
    then have "filter (\<lambda>c. label c = key) cs = []" by (simp add: filter_empty_conv)
    with True show ?thesis by simp
  next
    case False
    with Cons.prems have "distinct (map label cs)" "key \<in> set (map label cs)" by auto
    then obtain c where "filter (\<lambda>c. label c = key) cs = [c] \<and> label c = key"
      using Cons.IH by blast
    with False show ?thesis by simp
  qed
qed

lemma getitem_Inr_iff: "getitem df key = Inr cs \<longleftrightarrow> cs \<noteq> [] \<and> cs = filter (\<lambda>c. label c = key) (columns df)"
  by (auto simp: getitem_def split: list.splits)

lemma filter_label_map:
  assumes "\<And>c. label (f c) = label c"
  shows "filter (\<lambda>c. label c = k) (map f cs) = map f (filter (\<lambda>c. label c = k) cs)"
  using assms by (induction cs) simp_all

lemma getitem_setitem_other:
  assumes "key \<noteq> k"
  shows "getitem (setitem df key vs) k = getitem df k"
proof -
  let ?f = "\<lambda>c::column. if label c = key then c\<lparr>dtype := Int64, cells := vs\<rparr> else c"
  have "filter (\<lambda>c. label c = k) (map ?f (columns df)) = map ?f (filter (\<lambda>c. label c = k) (columns df))"
    by (rule filter_label_map) simp
  also have "\<dots> = filter (\<lambda>c. label c = k) (columns df)"
    by (rule map_idI) (use assms in auto)
  finally have "filter (\<lambda>c. label c = k) (columns (setitem df key vs)) = filter (\<lambda>c. label c = k) (columns df)"
    using assms by (simp add: setitem_def)
  then show ?thesis by (simp add: getitem_def)
qed

lemma getitem_setitem_same:
  assumes "distinct (labels df)"
  shows "getitem (setitem df key vs) key = Inr [\<lparr>label = key, dtype = Int64, cells = vs\<rparr>]"
proof (cases "key \<in> set (labels df)")
  case True
  then obtain c where c: "filter (\<lambda>c. label c = key) (columns df) = [c]" "label c = key"
    using filter_label_unique [of "columns df" key] assms by (auto simp: labels_def)
  let ?f = "\<lambda>c::column. if label c = key then c\<lparr>dtype := Int64, cells := vs\<rparr> else c"
  have "filter (\<lambda>c. label c = key) (map ?f (columns df)) = map ?f (filter (\<lambda>c. label c = key) (columns df))"
    by (rule filter_label_map) simp
  with c have "filter (\<lambda>c. label c = key) (map ?f (columns df)) = [\<lparr>label = key, dtype = Int64, cells = vs\<rparr>]"
    by simp
  with True show ?thesis by (simp add: getitem_def setitem_def)
next
  case False
  then have "filter (\<lambda>c. label c = key) (columns df) = []"
    by (auto simp: labels_def filter_empty_conv)
  with False show ?thesis by (simp add: getitem_def setitem_def)
qed

lemma distinct_labels_setitem: "distinct (labels df) \<Longrightarrow> distinct (labels (setitem df key vs))"
  by (simp add: labels_setitem_list)

lemma eq_scalar_replacer: "eq_scalar k (re_replacer sub v) = eq_scalar k v"
  by (cases v) simp_all

lemma getitem_normalize:
  assumes "getitem (normalize df) key = Inr [c']"
  shows "\<exists>c. getitem df key = Inr [c] \<and> label c' = label c \<and>
           cells c' = (if dtype c = Object then map (re_replacer normalize_value) (cells c) else cells c)"
proof -
  let ?f = "\<lambda>c::column. if dtype c = Object then c\<lparr>cells := map (re_replacer normalize_value) (cells c)\<rparr> else c"
  have "filter (\<lambda>c. label c = key) (map ?f (columns df)) = map ?f (filter (\<lambda>c. label c = key) (columns df))"
    by (rule filter_label_map) simp
  with assms have "map ?f (filter (\<lambda>c. label c = key) (columns df)) = [c']"
    by (simp add: getitem_Inr_iff columns_normalize)
  then obtain c where c: "filter (\<lambda>c. label c = key) (columns df) = [c]" "c' = ?f c"
    by (auto simp: map_eq_Cons_conv)
  then have "getitem df key = Inr [c]" by (simp add: getitem_def)
  with c(2) show ?thesis by auto
qed


lemma add_indicators_columns:
  assumes dist: "distinct (labels df)" and ok: "add_indicators (normalize df) = Inr df2"
  shows "\<exists>p j. getitem df ''pdays'' = Inr [p] \<and> getitem df ''job'' = Inr [j]
     \<and> getitem df2 ''no_previous_contact''
         = Inr [\<lparr>label = ''no_previous_contact'', dtype = Int64,
                 cells = map (\<lambda>v. astype_int (eq_scalar 999 v)) (cells p)\<rparr>]
     \<and> getitem df2 ''not_working''
         = Inr [\<lparr>label = ''not_working'', dtype = Int64,
                 cells = map (\<lambda>v. astype_int (isin not_working_jobs
                             (if dtype j = Object then re_replacer normalize_value v else v)))
                           (cells j)\<rparr>]"
proof -
  let ?n = "normalize df"
  have dn: "distinct (labels ?n)" using dist by (simp add: labels_normalize)
  from ok obtain df1 where
    s1: "add_indicator ''no_previous_contact'' ''pdays'' (eq_scalar 999) ?n = Inr df1" and
    s2: "add_indicator ''not_working'' ''job'' (isin not_working_jobs) df1 = Inr df2"
    by (auto dest!: add_indicators_Inr)
  from s1 obtain p' where p': "getitem ?n ''pdays'' = Inr [p']"
    and df1: "df1 = setitem ?n ''no_previous_contact'' (map (\<lambda>v. astype_int (eq_scalar 999 v)) (cells p'))"
    by (auto dest!: add_indicator_Inr)
  from s2 obtain j' where j1: "getitem df1 ''job'' = Inr [j']"
    and df2: "df2 = setitem df1 ''not_working'' (map (\<lambda>v. astype_int (isin not_working_jobs v)) (cells j'))"
    by (auto dest!: add_indicator_Inr)
  have j': "getitem ?n ''job'' = Inr [j']"
    using j1 unfolding df1 by (simp add: getitem_setitem_other)
  from getitem_normalize [OF p'] obtain p where p: "getitem df ''pdays'' = Inr [p]"
    and cp: "cells p' = (if dtype p = Object then map (re_replacer normalize_value) (cells p) else cells p)"
    by blast
  from getitem_normalize [OF j'] obtain j where j: "getitem df ''job'' = Inr [j]"
    and cj: "cells j' = (if dtype j = Object then map (re_replacer normalize_value) (cells j) else cells j)"
    by blast
  have d1: "distinct (labels df1)" unfolding df1 using dn by (rule distinct_labels_setitem)
  have "getitem df2 ''no_previous_contact'' = getitem df1 ''no_previous_contact''"
    unfolding df2 by (simp add: getitem_setitem_other)
  also have "\<dots> = Inr [\<lparr>label = ''no_previous_contact'', dtype = Int64,
                 cells = map (\<lambda>v. astype_int (eq_scalar 999 v)) (cells p')\<rparr>]"
    unfolding df1 using dn by (rule getitem_setitem_same)
  also have "map (\<lambda>v. astype_int (eq_scalar 999 v)) (cells p') = map (\<lambda>v. astype_int (eq_scalar 999 v)) (cells p)"
    by (simp add: cp eq_scalar_replacer comp_def)
  finally have r1: "getitem df2 ''no_previous_contact''
         = Inr [\<lparr>label = ''no_previous_contact'', dtype = Int64,
                 cells = map (\<lambda>v. astype_int (eq_scalar 999 v)) (cells p)\<rparr>]" .
  have "getitem df2 ''not_working'' = Inr [\<lparr>label = ''not_working'', dtype = Int64,
                 cells = map (\<lambda>v. astype_int (isin not_working_jobs v)) (cells j')\<rparr>]"
    unfolding df2 using d1 by (rule getitem_setitem_same)
  also have "map (\<lambda>v. astype_int (isin not_working_jobs v)) (cells j')
       = map (\<lambda>v. astype_int (isin not_working_jobs
                             (if dtype j = Object then re_replacer normalize_value v else v))) (cells j)"
    by (simp add: cj comp_def)
  finally have r2: "getitem df2 ''not_working''
         = Inr [\<lparr>label = ''not_working'', dtype = Int64,
                 cells = map (\<lambda>v. astype_int (isin not_working_jobs
                             (if dtype j = Object then re_replacer normalize_value v else v)))
                           (cells j)\<rparr>]" .
  from p j r1 r2 show ?thesis by blast
qed

subsection \<open>The indicator columns (C2)\<close>

lemma getitem_single_mem: "getitem df key = Inr [c] \<Longrightarrow> filter (\<lambda>c. label c = key) (columns df) = [c]"
  by (simp add: getitem_Inr_iff)

lemma derive_int_column:
  assumes d: "derive df = Inr d" and ai: "add_indicators (normalize df) = Inr df2"
    and g: "getitem df2 key = Inr [c]" and k: "key \<notin> set pruned" and t: "dtype c = Int64"
  shows "filter (\<lambda>c. label c = key \<and> dtype c = Int64) (columns d) = [c]"
proof -
  from d ai obtain df3 where dr: "drop_labels pruned df2 = Inr df3" and dd: "d = get_dummies df3"
    by (auto dest!: derive_Inr)
  have c3: "columns df3 = filter (\<lambda>c. label c \<notin> set pruned) (columns df2)"
    using drop_labels_Inr(2) [OF dr] by simp
  have dummies: "filter (\<lambda>c. label c = key \<and> dtype c = Int64)
           (concat (map get_dummies_1d cs)) = []" for cs
    by (auto simp: filter_empty_conv get_dummies_1d_def dummy_column_def)
  have "filter (\<lambda>c. label c = key \<and> dtype c = Int64) (columns d)
      = filter (\<lambda>c. label c = key \<and> dtype c = Int64) (filter (\<lambda>c. dtype c \<noteq> Object) (columns df3))"
    by (simp add: dd get_dummies_def dummies)
  also have "\<dots> = filter (\<lambda>c. dtype c = Int64) (filter (\<lambda>c. label c = key) (columns df2))"
    using k by (auto simp: c3 intro: filter_cong)
  also have "\<dots> = [c]" using getitem_single_mem [OF g] t by simp
  finally show ?thesis .
qed

text \<open>
  C2, as amended. For a loaded table with distinct column labels on which the script
  gets as far as the encoded table \<open>d\<close>: the table has one \<open>pdays\<close> column \<open>p\<close> and one
  \<open>job\<close> column \<open>j\<close>; the integer column \<open>no_previous_contact\<close> of \<open>d\<close> holds, row by row,
  1 if the \<open>pdays\<close> value of the row equals 999 and 0 otherwise; the integer column
  \<open>not_working\<close> holds 1 if the \<open>job\<close> value of the row, after the textual normalization,
  is one of student, retired, unemployed, and 0 otherwise.
\<close>

theorem C2_indicators:
  assumes "distinct (labels df)" and "derive df = Inr d"
  shows "\<exists>p j. getitem df ''pdays'' = Inr [p] \<and> getitem df ''job'' = Inr [j]
     \<and> filter (\<lambda>c. label c = ''no_previous_contact'' \<and> dtype c = Int64) (columns d)
         = [\<lparr>label = ''no_previous_contact'', dtype = Int64,
             cells = map (\<lambda>v. astype_int (eq_scalar 999 v)) (cells p)\<rparr>]
     \<and> filter (\<lambda>c. label c = ''not_working'' \<and> dtype c = Int64) (columns d)
         = [\<lparr>label = ''not_working'', dtype = Int64,
             cells = map (\<lambda>v. astype_int (isin not_working_jobs
                         (if dtype j = Object then re_replacer normalize_value v else v)))
                       (cells j)\<rparr>]"
proof -
  from assms(2) obtain df2 where ai: "add_indicators (normalize df) = Inr df2"
    by (auto dest!: derive_Inr)
  from add_indicators_columns [OF assms(1) ai] obtain p j where
    p: "getitem df ''pdays'' = Inr [p]" and j: "getitem df ''job'' = Inr [j]" and
    g1: "getitem df2 ''no_previous_contact''
         = Inr [\<lparr>label = ''no_previous_contact'', dtype = Int64,
                 cells = map (\<lambda>v. astype_int (eq_scalar 999 v)) (cells p)\<rparr>]" and
    g2: "getitem df2 ''not_working''
         = Inr [\<lparr>label = ''not_working'', dtype = Int64,
                 cells = map (\<lambda>v. astype_int (isin not_working_jobs
                             (if dtype j = Object then re_replacer normalize_value v else v)))
                           (cells j)\<rparr>]"
    by blast
  have k1: "''no_previous_contact'' \<notin> set pruned" and k2: "''not_working'' \<notin> set pruned"
    by (simp_all add: pruned_def)
  from derive_int_column [OF assms(2) ai g1 k1] derive_int_column [OF assms(2) ai g2 k2] p j
  show ?thesis by auto
qed

text \<open>C2 at the example table: both hypotheses hold there, and the two columns are as computed.\<close>

theorem C2_indicators_witness:
  "distinct (labels ex_table)
   \<and> filter (\<lambda>c. label c = ''no_previous_contact'' \<and> dtype c = Int64) (columns (projr (derive ex_table)))
       = [\<lparr>label = ''no_previous_contact'', dtype = Int64,
           cells = [IntC 1, IntC 0, IntC 1, IntC 0, IntC 1, IntC 1, IntC 0, IntC 1, IntC 1, IntC 0]\<rparr>]
   \<and> filter (\<lambda>c. label c = ''not_working'' \<and> dtype c = Int64) (columns (projr (derive ex_table)))
       = [\<lparr>label = ''not_working'', dtype = Int64,
           cells = [IntC 0, IntC 1, IntC 1, IntC 0, IntC 1, IntC 1, IntC 0, IntC 0, IntC 1, IntC 0]\<rparr>]"
proof -
  have h1: "distinct (labels ex_table)" by (simp add: ex_table_def labels_def)
  have h2: "derive ex_table = Inr (projr (derive ex_table))"
    by (simp add: eval_defs ex_table_def ex_floats_def)
  from C2_indicators [OF h1 h2] obtain p j where
    p: "getitem ex_table ''pdays'' = Inr [p]" and j: "getitem ex_table ''job'' = Inr [j]" and
    r: "filter (\<lambda>c. label c = ''no_previous_contact'' \<and> dtype c = Int64) (columns (projr (derive ex_table)))
         = [\<lparr>label = ''no_previous_contact'', dtype = Int64,
             cells = map (\<lambda>v. astype_int (eq_scalar 999 v)) (cells p)\<rparr>]"
       "filter (\<lambda>c. label c = ''not_working'' \<and> dtype c = Int64) (columns (projr (derive ex_table)))
         = [\<lparr>label = ''not_working'', dtype = Int64,
             cells = map (\<lambda>v. astype_int (isin not_working_jobs
                         (if dtype j = Object then re_replacer normalize_value v else v)))
                       (cells j)\<rparr>]"
    by blast
  from p have pv: "p = \<lparr>label = ''pdays'', dtype = Int64,
          cells = [IntC 999, IntC 3, IntC 999, IntC 6, IntC 999,
                   IntC 999, IntC 0, IntC 999, IntC 999, IntC 12]\<rparr>"
    by (simp add: getitem_def ex_table_def)
  from j have jv: "j = \<lparr>label = ''job'', dtype = Object,
          cells = [StrC ''admin.'', StrC ''student'', StrC ''retired'', StrC ''admin.'',
                   StrC ''unemployed'', StrC ''student'', StrC ''admin.'', NaN,
                   StrC ''retired'', StrC ''admin.'']\<rparr>"
    by (simp add: getitem_def ex_table_def)
  show ?thesis
    using h1 r unfolding pv jv
    by (simp add: astype_int_def not_working_jobs_def normalize_value_def re_sub_dot_def at_dollar_def LF_def)
qed

text \<open>
  C2 as stated fails for a row whose job field is \<open>student.\<close>: the field is not one of
  the three values, yet \<open>not_working\<close> is 1, because the test is made on the normalized
  value \<open>student\<close>.
\<close>

theorem C2_counterexample:
  "add_indicators (normalize ex_dotted_job) =
     Inr \<lparr>index = [0],
          columns = [\<lparr>label = ''pdays'', dtype = Int64, cells = [IntC 5]\<rparr>,
                     \<lparr>label = ''job'', dtype = Object, cells = [StrC ''student'']\<rparr>,
                     \<lparr>label = ''no_previous_contact'', dtype = Int64, cells = [IntC 0]\<rparr>,
                     \<lparr>label = ''not_working'', dtype = Int64, cells = [IntC 1]\<rparr>]\<rparr>
   \<and> cells (columns ex_dotted_job ! 1) = [StrC ''student.'']
   \<and> ''student.'' \<notin> set not_working_jobs"
  by (simp add: eval_defs ex_dotted_job_def)

subsection \<open>Column labels survive the normalization (C10)\<close>

text \<open>
  C10. Normalization changes no column label. Hence, on a table that has the six pruned
  columns under their original names and on which the two indicators could be added,
  the drop of the six columns succeeds and removes exactly them.
\<close>

theorem C10_labels_kept:
  assumes "set pruned \<subseteq> set (labels df)" and "add_indicators (normalize df) = Inr df2"
  shows "labels (normalize df) = labels df
         \<and> (\<exists>df3. drop_labels pruned df2 = Inr df3
                \<and> labels df3 = filter (\<lambda>l. l \<notin> set pruned) (labels df2))"
proof -
  have "set (labels df2) = insert ''not_working'' (insert ''no_previous_contact'' (set (labels (normalize df))))"
    using assms(2) by (rule add_indicators_labels)
  with assms(1) have "set pruned \<subseteq> set (labels df2)" by (auto simp: labels_normalize)
  then have "drop_labels pruned df2 = Inr (df2\<lparr>columns := filter (\<lambda>c. label c \<notin> set pruned) (columns df2)\<rparr>)"
    by (rule drop_labels_succeeds)
  then show ?thesis by (auto simp: labels_normalize drop_labels_labels)
qed

text \<open>C10 at the example table.\<close>

theorem C10_labels_kept_witness:
  "set pruned \<subseteq> set (labels ex_table)
   \<and> labels (normalize ex_table) = labels ex_table
   \<and> labels (projr (drop_labels pruned (projr (add_indicators (normalize ex_table)))))
       = [''pdays'', ''job'', ''y'', ''no_previous_contact'', ''not_working'']"
proof -
  have h1: "set pruned \<subseteq> set (labels ex_table)" by (simp add: ex_table_def labels_def pruned_def)
  have h2: "add_indicators (normalize ex_table) = Inr (projr (add_indicators (normalize ex_table)))"
    by (simp add: eval_defs ex_table_def ex_floats_def)
  from C10_labels_kept [OF h1 h2] obtain df3 where
    a: "labels (normalize ex_table) = labels ex_table" and
    b: "drop_labels pruned (projr (add_indicators (normalize ex_table))) = Inr df3" and
    c: "labels df3 = filter (\<lambda>l. l \<notin> set pruned) (labels (projr (add_indicators (normalize ex_table))))"
    by blast
  have "filter (\<lambda>l. l \<notin> set pruned) (labels (projr (add_indicators (normalize ex_table))))
      = [''pdays'', ''job'', ''y'', ''no_previous_contact'', ''not_working'']"
    by (simp add: eval_defs ex_table_def ex_floats_def)
  with h1 a b c show ?thesis by simp
qed

subsection \<open>Shuffle and split (C1)\<close>

lemma take_rows_perm:
  assumes "mset locs = mset [0..<len d]"
  shows "take_rows locs d =
     Inr \<lparr>index = map (nth (index d)) locs,
          columns = map (\<lambda>c. c\<lparr>cells := map (nth (cells c)) locs\<rparr>) (columns d)\<rparr>"
  using perm_in_range(1) [OF assms] by (simp add: take_rows_def)

lemma zip_map_same:
  "map (\<lambda>(c, c'). c\<lparr>cells := cells c @ cells c'\<rparr>) (zip (map f cs) (map g cs))
     = map (\<lambda>c. (f c)\<lparr>cells := cells (f c) @ cells (g c)\<rparr>) cs"
  by (induction cs) simp_all

lemma stack_iloc:
  assumes "a \<le> b" and "wf_frame s"
  shows "stack (iloc 0 a s) (stack (iloc a b s) (iloc b (len s) s)) = s"
proof -
  have idx: "slice 0 a (index s) @ slice a b (index s) @ slice b (len s) (index s) = index s"
    unfolding len_def using assms(1) by (rule slice_partition)
  have col: "c\<lparr>cells := slice 0 a (cells c) @ slice a b (cells c) @ slice b (len s) (cells c)\<rparr> = c"
    if "c \<in> set (columns s)" for c
  proof -
    from that assms(2) have "length (cells c) = len s" by (simp add: wf_frame_def list_all_iff)
    with slice_partition [OF assms(1), of "cells c"] show ?thesis by simp
  qed
  have "columns (stack (iloc 0 a s) (stack (iloc a b s) (iloc b (len s) s)))
      = map (\<lambda>c. c\<lparr>cells := slice 0 a (cells c) @ slice a b (cells c) @ slice b (len s) (cells c)\<rparr>) (columns s)"
    by (simp add: stack_def iloc_def zip_map_same)
  also have "\<dots> = columns s" by (rule map_idI) (rule col)
  finally have "columns (stack (iloc 0 a s) (stack (iloc a b s) (iloc b (len s) s))) = columns s" .
  moreover have "index (stack (iloc 0 a s) (stack (iloc a b s) (iloc b (len s) s))) = index s"
    using idx by (simp add: stack_def iloc_def)
  ultimately show ?thesis by (simp add: frame.equality)
qed

lemma sample_perm:
  assumes "mset (choice lib (RandomState lib seed) (len d)) = mset [0..<len d]"
  shows "\<exists>s. sample lib g (Some seed) d = Inr s \<and> wf_frame s \<and> len s = len d
            \<and> mset (index s) = mset (index d) \<and> labels s = labels d"
proof -
  let ?locs = "choice lib (RandomState lib seed) (len d)"
  let ?s = "\<lparr>index = map (nth (index d)) ?locs,
          columns = map (\<lambda>c. c\<lparr>cells := map (nth (cells c)) ?locs\<rparr>) (columns d)\<rparr>"
  have s: "sample lib g (Some seed) d = Inr ?s"
    using take_rows_perm [OF assms] by (simp add: sample_def)
  have "length ?locs = len d" using assms by (rule perm_in_range(2))
  then have l: "len ?s = len d" by (simp add: len_def)
  have w: "wf_frame ?s" by (simp add: wf_frame_def list_all_iff len_def)
  have "mset (map (nth (index d)) ?locs) = mset (index d)"
    using assms unfolding len_def by (rule mset_map_nth_perm)
  then have m: "mset (index ?s) = mset (index d)" by simp
  have lb: "labels ?s = labels d" by (simp add: labels_def comp_def)
  from s l w m lb show ?thesis by blast
qed

lemma len_iloc: "len (iloc a b s) = length (slice a b (index s))"
  by (simp add: len_def iloc_def)

lemma labels_iloc: "labels (iloc a b s) = labels s"
  by (simp add: labels_def iloc_def comp_def)

lemma shuffle_split_Inr:
  assumes "shuffle_split lib g d = Inr (tr, va, te)"
  shows "\<exists>s. sample lib g (Some 42) d = Inr s \<and> tr = iloc 0 (cut70 (len d)) s
          \<and> va = iloc (cut70 (len d)) (cut90 (len d)) s \<and> te = iloc (cut90 (len d)) (len s) s"
  using assms by (auto simp: shuffle_split_def split_def split: sum.splits)

lemma partitions_Inr:
  assumes "partitions lib g df = Inr parts"
  shows "\<exists>d. derive df = Inr d \<and> shuffle_split lib g d = Inr parts"
  using assms by (auto simp: partitions_def split: sum.splits)

lemma derive_len: "derive df = Inr d \<Longrightarrow> len d = len df"
  by (simp add: len_def derive_index)

lemma split_facts:
  assumes ab: "a \<le> b" and bn: "b \<le> len s" and w: "wf_frame s" and dist: "distinct (index s)"
  shows "stack (iloc 0 a s) (stack (iloc a b s) (iloc b (len s) s)) = s"
    and "index (iloc 0 a s) @ index (iloc a b s) @ index (iloc b (len s) s) = index s"
    and "len (iloc 0 a s) = a" and "len (iloc a b s) = b - a" and "len (iloc b (len s) s) = len s - b"
proof -
  show "stack (iloc 0 a s) (stack (iloc a b s) (iloc b (len s) s)) = s"
    using ab w by (rule stack_iloc)
  show "index (iloc 0 a s) @ index (iloc a b s) @ index (iloc b (len s) s) = index s"
    using slice_partition [OF ab, of "index s"] by (simp add: iloc_def len_def)
  show "len (iloc 0 a s) = a" "len (iloc a b s) = b - a" "len (iloc b (len s) s) = len s - b"
    using length_slices [OF ab, of "index s"] bn by (simp_all add: iloc_def len_def)
qed

lemma strings_of_append: "strings_of (xs @ ys) = strings_of xs @ strings_of ys"
  by (induction xs rule: strings_of.induct) simp_all

lemma strings_of_replicate: "strings_of (replicate n (StrC s)) = replicate n s"
  by (induction n) simp_all

lemma remdups_replicate_eq: "remdups (replicate n x) = (if n = 0 then [] else [x])"
  by (induction n) auto

lemma derive_ninety: "\<exists>d. derive ex_ninety = Inr d"
  by (simp add: eval_defs ex_ninety_def strings_of_append strings_of_replicate remdups_replicate_eq)

lemma len_ninety: "len ex_ninety = 90"
  by (simp add: len_def ex_ninety_def)

lemma partitions_sizes:
  assumes d: "derive df = Inr d"
    and perm: "mset (choice lib (RandomState lib 42) (len df)) = mset [0..<len df]"
    and small: "len df < 2 ^ 53"
  shows "map_sum id sizes (partitions lib g df)
           = Inr (cut70 (len df), cut90 (len df) - cut70 (len df), len df - cut90 (len df))"
proof -
  have ld: "len d = len df" using d by (rule derive_len)
  from perm ld have "mset (choice lib (RandomState lib 42) (len d)) = mset [0..<len d]" by simp
  from sample_perm [OF this, of g] obtain s where
    s: "sample lib g (Some 42) d = Inr s" and ls: "len s = len d" by blast
  have ab: "cut70 (len df) \<le> cut90 (len df)" using small by (rule cut70_le_cut90)
  have bn: "cut90 (len df) \<le> len df" using small by (rule cut90_le)
  have "partitions lib g df = Inr (split s (cut70 (len df)) (cut90 (len df)))"
    using d s ld by (simp add: partitions_def shuffle_split_def)
  moreover have "sizes (split s (cut70 (len df)) (cut90 (len df)))
      = (cut70 (len df), cut90 (len df) - cut70 (len df), len df - cut90 (len df))"
    using length_slices [OF ab, of "index s"] bn ls ld
    by (simp add: sizes_def split_def iloc_def len_def)
  ultimately show ?thesis by simp
qed

text \<open>
  What line 209 computes. Let the script reach its three partitions on a loaded table of
  \<open>N\<close> rows (\<open>N < 2^53\<close>) with distinct row labels, the generator's draw being a
  permutation of \<open>0..N-1\<close>. Then the encoded table \<open>d\<close> has the rows of the input; the
  shuffled frame \<open>s\<close> is \<open>d\<close> with its rows in the order drawn for seed 42; train,
  validation and test are consecutive runs of rows of \<open>s\<close>, cut at \<open>cut70 N\<close> and
  \<open>cut90 N\<close>; stacked they give \<open>s\<close> back; their row labels are pairwise disjoint and
  together are the row labels of the input, each once; their row counts add up to \<open>N\<close>.
  For \<open>N < 2^48\<close> the second cut is the floor of \<open>0.9 N\<close>, and the first cut is the floor
  of \<open>0.7 N\<close> whenever \<open>N\<close> is not a multiple of ten and never above it. For \<open>N = 41188\<close>
  the counts are 28831, 8238 and 4119.
\<close>

lemma shuffle_split_partition:
  assumes run: "partitions lib g df = Inr (train, validation, test)"
    and perm: "mset (choice lib (RandomState lib 42) (len df)) = mset [0..<len df]"
    and dist: "distinct (index df)"
    and small: "len df < 2 ^ 53"
  shows "\<exists>d s. derive df = Inr d \<and> index d = index df
      \<and> sample lib g (Some 42) d = Inr s \<and> mset (index s) = mset (index d)
      \<and> train = iloc 0 (cut70 (len df)) s
      \<and> validation = iloc (cut70 (len df)) (cut90 (len df)) s
      \<and> test = iloc (cut90 (len df)) (len df) s
      \<and> stack train (stack validation test) = s
      \<and> distinct (index train @ index validation @ index test)
      \<and> set (index train) \<inter> set (index validation) = {}
      \<and> set (index train) \<inter> set (index test) = {}
      \<and> set (index validation) \<inter> set (index test) = {}
      \<and> set (index train) \<union> set (index validation) \<union> set (index test) = set (index df)
      \<and> len train = cut70 (len df)
      \<and> len validation = cut90 (len df) - cut70 (len df)
      \<and> len test = len df - cut90 (len df)
      \<and> len train + len validation + len test = len df
      \<and> cut70 (len df) \<le> cut90 (len df) \<and> cut90 (len df) \<le> len df
      \<and> (len df < 2 ^ 48 \<longrightarrow>
            cut90 (len df) = spec_cut90 (len df)
          \<and> cut70 (len df) \<le> spec_cut70 (len df) \<and> spec_cut70 (len df) \<le> cut70 (len df) + 1
          \<and> (\<not> 10 dvd len df \<longrightarrow> cut70 (len df) = spec_cut70 (len df)))
      \<and> cut70 41188 = 28831 \<and> cut90 41188 - cut70 41188 = 8238 \<and> 41188 - cut90 41188 = 4119"
proof -
  from run obtain d where d: "derive df = Inr d" and ss: "shuffle_split lib g d = Inr (train, validation, test)"
    by (auto dest!: partitions_Inr)
  have id: "index d = index df" using d by (rule derive_index)
  have ld: "len d = len df" using d by (rule derive_len)
  from perm ld have "mset (choice lib (RandomState lib 42) (len d)) = mset [0..<len d]" by simp
  from sample_perm [OF this, of g] obtain s where
    s: "sample lib g (Some 42) d = Inr s" and w: "wf_frame s" and ls: "len s = len d"
    and ms: "mset (index s) = mset (index d)" by blast
  from shuffle_split_Inr [OF ss] s ls ld have
    tr: "train = iloc 0 (cut70 (len df)) s" and
    va: "validation = iloc (cut70 (len df)) (cut90 (len df)) s" and
    te: "test = iloc (cut90 (len df)) (len s) s"
    by auto
  have ab: "cut70 (len df) \<le> cut90 (len df)" using small by (rule cut70_le_cut90)
  have bn: "cut90 (len df) \<le> len s" using small ls ld by (simp add: cut90_le)
  have "distinct (index s) \<longleftrightarrow> distinct (index d)"
    using ms by (rule mset_eq_imp_distinct_iff)
  with dist id have ds: "distinct (index s)" by simp
  note f = split_facts [OF ab bn w ds]
  have stk: "stack train (stack validation test) = s" using f(1) by (simp add: tr va te)
  have cat: "index train @ index validation @ index test = index s" using f(2) by (simp add: tr va te)
  have dcat: "distinct (index train @ index validation @ index test)" using ds cat by simp
  have sets: "set (index train) \<union> set (index validation) \<union> set (index test) = set (index df)"
  proof -
    have "set (index train @ index validation @ index test) = set (index s)" using cat by simp
    also have "\<dots> = set (index d)" using ms by (rule mset_eq_setD)
    finally show ?thesis using id by (simp add: Un_assoc)
  qed
  have l1: "len train = cut70 (len df)" using f(3) by (simp add: tr)
  have l2: "len validation = cut90 (len df) - cut70 (len df)" using f(4) by (simp add: va)
  have l3: "len test = len df - cut90 (len df)" using f(5) ls ld by (simp add: te)
  have sum: "len train + len validation + len test = len df"
    using l1 l2 l3 ab bn ls ld by simp
  have ex: "cut70 41188 = 28831" "cut90 41188 - cut70 41188 = 8238" "41188 - cut90 41188 = 4119"
    by (simp_all add: cut_defs)
  from dcat have dj: "set (index train) \<inter> set (index validation) = {}"
      "set (index train) \<inter> set (index test) = {}"
      "set (index validation) \<inter> set (index test) = {}"
    by auto
  from te ls ld have te': "test = iloc (cut90 (len df)) (len df) s" by simp
  from bn ls ld have bn': "cut90 (len df) \<le> len df" by simp
  have fl: "len df < 2 ^ 48 \<longrightarrow>
            cut90 (len df) = spec_cut90 (len df)
          \<and> cut70 (len df) \<le> spec_cut70 (len df) \<and> spec_cut70 (len df) \<le> cut70 (len df) + 1
          \<and> (\<not> 10 dvd len df \<longrightarrow> cut70 (len df) = spec_cut70 (len df))"
    using cut90_exact [of "len df"] cut70_bounds [of "len df"] by (simp add: spec_cut_div)
  show ?thesis
    apply (rule exI [of _ d], rule exI [of _ s])
    apply (intro conjI)
    apply (rule d id s ms tr va te' stk dcat dj sets l1 l2 l3 sum ab bn' fl ex)+
    done
qed

text \<open>
  C1. The script at a table of ninety rows. The first 70% of ninety rows are 63 rows, and
  63 is the floor of 0.7 times 90; the script computes the double product \<^verbatim>\<open>0.7 * 90\<close>,
  which is 62.99999999999999, truncates it to 62 and so makes partitions of 62, 19 and
  9 rows, where 63, 18 and 9 are claimed.
\<close>

theorem C1_ninety_rows:
  "map_sum id sizes (partitions ex_library 7 ex_ninety) = Inr (62, 19, 9)
   \<and> len ex_ninety = 90 \<and> cut70 90 = 62 \<and> cut90 90 = 81
   \<and> spec_cut70 90 = 63 \<and> spec_cut90 90 = 81"
proof -
  from derive_ninety obtain d where d: "derive ex_ninety = Inr d" by blast
  have n: "len ex_ninety = 90" by (rule len_ninety)
  have p: "mset (choice ex_library (RandomState ex_library 42) (len ex_ninety)) = mset [0..<len ex_ninety]"
    by (simp add: ex_library_def)
  have "map_sum id sizes (partitions ex_library 7 ex_ninety)
           = Inr (cut70 (len ex_ninety), cut90 (len ex_ninety) - cut70 (len ex_ninety),
                  len ex_ninety - cut90 (len ex_ninety))"
    using d p by (rule partitions_sizes) (simp add: n)
  moreover have "cut70 90 = 62" "cut90 90 = 81" by (simp_all add: cut_defs)
  moreover have "spec_cut70 90 = 63" "spec_cut90 90 = 81" by (simp_all add: spec_cut70_def spec_cut90_def)
  ultimately show ?thesis using n by simp
qed

subsection \<open>The local store and the whole script\<close>

lemma path_join_relative:
  assumes "b \<noteq> []" and "hd b \<noteq> CHR ''/''"
  shows "path_join out b = (if out = [] \<or> last out = CHR ''/'' then out else out @ ''/'') @ b"
  using assms by (simp add: path_join_def)

lemma output_paths_distinct: "distinct (output_paths a)"
  by (simp add: output_paths_def train_path_def validation_path_def test_y_path_def test_x_path_def
      path_join_relative)

lemma store_Inr:
  assumes "store out path w = Inr w'"
  shows "\<exists>df. out = Inr df \<and> dirname path \<in> dirs w \<and> w' = w\<lparr>files := (files w)(path \<mapsto> csv_rows df)\<rparr>"
  using assms by (auto simp: store_def to_csv_def split: sum.splits if_splits)


lemma local_store_Inr:
  assumes "local_store a (tr, va, te) w = Inr w'"
  shows "\<exists>o1 o2 o3 o4. label_first tr = Inr o1 \<and> label_first va = Inr o2
      \<and> label_only te = Inr o3 \<and> features_only te = Inr o4
      \<and> dirname (train_path a) \<in> dirs w \<and> dirname (validation_path a) \<in> dirs w
      \<and> dirname (test_y_path a) \<in> dirs w \<and> dirname (test_x_path a) \<in> dirs w
      \<and> w' = print ''## Processing complete. Exiting.''
                (w\<lparr>files := (files w)(train_path a \<mapsto> csv_rows o1, validation_path a \<mapsto> csv_rows o2,
                                       test_y_path a \<mapsto> csv_rows o3, test_x_path a \<mapsto> csv_rows o4)\<rparr>)"
proof -
  from assms obtain w1 w2 w3 w4 where
    s1: "store (label_first tr) (train_path a) w = Inr w1" and
    s2: "store (label_first va) (validation_path a) w1 = Inr w2" and
    s3: "store (label_only te) (test_y_path a) w2 = Inr w3" and
    s4: "store (features_only te) (test_x_path a) w3 = Inr w4" and
    w': "w' = print ''## Processing complete. Exiting.'' w4"
    by (auto simp: local_store_def split: sum.splits)
  from store_Inr [OF s1] obtain o1 where o1: "label_first tr = Inr o1" "dirname (train_path a) \<in> dirs w"
    "w1 = w\<lparr>files := (files w)(train_path a \<mapsto> csv_rows o1)\<rparr>" by blast
  from store_Inr [OF s2] obtain o2 where o2: "label_first va = Inr o2" "dirname (validation_path a) \<in> dirs w1"
    "w2 = w1\<lparr>files := (files w1)(validation_path a \<mapsto> csv_rows o2)\<rparr>" by blast
  from store_Inr [OF s3] obtain o3 where o3: "label_only te = Inr o3" "dirname (test_y_path a) \<in> dirs w2"
    "w3 = w2\<lparr>files := (files w2)(test_y_path a \<mapsto> csv_rows o3)\<rparr>" by blast
  from store_Inr [OF s4] obtain o4 where o4: "features_only te = Inr o4" "dirname (test_x_path a) \<in> dirs w3"
    "w4 = w3\<lparr>files := (files w3)(test_x_path a \<mapsto> csv_rows o4)\<rparr>" by blast
  have "w' = print ''## Processing complete. Exiting.''
                (w\<lparr>files := (files w)(train_path a \<mapsto> csv_rows o1, validation_path a \<mapsto> csv_rows o2,
                                       test_y_path a \<mapsto> csv_rows o3, test_x_path a \<mapsto> csv_rows o4)\<rparr>)"
    by (simp add: w' o1(3) o2(3) o3(3) o4(3))
  moreover have "dirname (validation_path a) \<in> dirs w" "dirname (test_y_path a) \<in> dirs w"
    "dirname (test_x_path a) \<in> dirs w"
    using o2(2) o3(2) o4(2) by (simp_all add: o1(3) o2(3) o3(3))
  ultimately show ?thesis using o1(1,2) o2(1) o3(1) o4(1) by blast
qed

lemma main_Inr:
  assumes "main lib a w = Inr w'"
  shows "\<exists>df tr va te. read_csv lib w (input_path a) = Inr df
      \<and> partitions lib (np_random w) df = Inr (tr, va, te)
      \<and> local_store a (tr, va, te) w = Inr w'"
  using assms
  by (auto simp: main_def input_path_def split: sum.splits)

lemma files_after:
  assumes "w' = print line
                (w\<lparr>files := (files w)(train_path a \<mapsto> r1, validation_path a \<mapsto> r2,
                                       test_y_path a \<mapsto> r3, test_x_path a \<mapsto> r4)\<rparr>)"
  shows "files w' (train_path a) = Some r1" "files w' (validation_path a) = Some r2"
    "files w' (test_y_path a) = Some r3" "files w' (test_x_path a) = Some r4"
    "p \<notin> set (output_paths a) \<Longrightarrow> files w' p = files w p"
    "dirs w' = dirs w" "np_random w' = np_random w"
    "stdout w' = stdout w @ [line]"
  using output_paths_distinct [of a] unfolding assms
  by (auto simp: print_def output_paths_def)








lemma sample_seeded: "sample lib g (Some seed) d = sample lib g' (Some seed) d"
  by (simp add: sample_def)

lemma shuffle_split_seeded: "shuffle_split lib g d = shuffle_split lib g' d"
  by (simp add: shuffle_split_def sample_def)

lemma partitions_seeded: "partitions lib g df = partitions lib g' df"
proof (cases "derive df")
  case (Inl e)
  then show ?thesis by (simp add: partitions_def)
next
  case (Inr d)
  then show ?thesis by (simp add: partitions_def shuffle_split_seeded [of lib g d g'])
qed

lemma labels_take_rows: "take_rows locs d = Inr s \<Longrightarrow> labels s = labels d"
  by (auto simp: take_rows_def labels_def comp_def split: if_splits)

lemma shuffle_split_labels:
  assumes "shuffle_split lib g d = Inr (tr, va, te)"
  shows "labels tr = labels d" "labels va = labels d" "labels te = labels d"
proof -
  from shuffle_split_Inr [OF assms] obtain s where
    s: "sample lib g (Some 42) d = Inr s" and
    p: "tr = iloc 0 (cut70 (len d)) s" "va = iloc (cut70 (len d)) (cut90 (len d)) s"
       "te = iloc (cut90 (len d)) (len s) s"
    by blast
  from s have "labels s = labels d" by (auto simp: sample_def Let_def dest: labels_take_rows)
  then show "labels tr = labels d" "labels va = labels d" "labels te = labels d"
    by (simp_all add: p labels_iloc)
qed

lemma partitions_no_pruned:
  assumes "partitions lib g df = Inr (tr, va, te)"
  shows "set (labels tr) \<inter> set pruned = {}" "set (labels va) \<inter> set pruned = {}"
    "set (labels te) \<inter> set pruned = {}"
proof -
  from partitions_Inr [OF assms] obtain d where
    d: "derive df = Inr d" and ss: "shuffle_split lib g d = Inr (tr, va, te)" by blast
  from derive_no_pruned [OF d] shuffle_split_labels [OF ss]
  show "set (labels tr) \<inter> set pruned = {}" "set (labels va) \<inter> set pruned = {}"
    "set (labels te) \<inter> set pruned = {}" by simp_all
qed

lemma features_only_labels:
  assumes "features_only part = Inr x" and "set (labels part) \<inter> set pruned = {}"
  shows "feature_labels (labels x)" and "index x = index part"
    and "columns x = filter (\<lambda>c. label c \<notin> set label_cols) (columns part)"
    and "set label_cols \<subseteq> set (labels part)"
proof -
  have l: "labels x = filter (\<lambda>l. l \<notin> set label_cols) (labels part)"
    using assms(1) unfolding features_only_def by (rule drop_labels_labels)
  with assms(2) show "feature_labels (labels x)" by (auto simp: feature_labels_def)
  show "index x = index part" using assms(1) unfolding features_only_def by (rule drop_labels_index)
  show "columns x = filter (\<lambda>c. label c \<notin> set label_cols) (columns part)"
    using drop_labels_Inr(2) [OF assms(1) [unfolded features_only_def]] by simp
  show "set label_cols \<subseteq> set (labels part)"
    using drop_labels_Inr(1) [OF assms(1) [unfolded features_only_def]] .
qed





lemmas ex_defs = ex_world_def ex_table_def ex_floats_def ex_library_def ex_world_empty_output_def
  ex_world_later_def ex_world_short_def ex_dotted_job_def ex_own_label_def ex_world_own_label_def
  ex_world_no_test_def ex_parse_csv_def csv_of_def

lemma main_ex_world:
  "\<exists>w'. main ex_library default_args ex_world = Inr w'"
  by (simp add: eval_defs cut_defs ex_defs)

lemma read_ex_world:
  "read_csv ex_library ex_world (input_path default_args) = Inr ex_table"
  by (simp add: eval_defs ex_defs)

subsection \<open>What the feature files hold (C4)\<close>



























subsection \<open>Determinism (C5)\<close>

text \<open>
  C5. Take two runs with the same arguments in two worlds that hold the same file at the
  input path; the worlds may differ in everything else, in particular in the state of
  numpy's global generator, in the other files already present and in the console
  output. If both runs succeed, they loaded the same table and computed the same three
  partitions, and each of the four output files exists after both runs with the same
  contents.
\<close>

theorem C5_deterministic:
  assumes same: "files w1 (input_path a) = files w2 (input_path a)"
    and r1: "main lib a w1 = Inr w1'" and r2: "main lib a w2 = Inr w2'"
  shows "(\<exists>df parts. read_csv lib w1 (input_path a) = Inr df
            \<and> read_csv lib w2 (input_path a) = Inr df
            \<and> partitions lib (np_random w1) df = Inr parts
            \<and> partitions lib (np_random w2) df = Inr parts)
       \<and> list_all (\<lambda>p. files w1' p = files w2' p \<and> files w1' p \<noteq> None) (output_paths a)"
proof -
  have rd: "read_csv lib w2 (input_path a) = read_csv lib w1 (input_path a)"
    using same by (simp add: read_csv_def)
  from main_Inr [OF r1] obtain df tr va te where
    t1: "read_csv lib w1 (input_path a) = Inr df" and
    p1: "partitions lib (np_random w1) df = Inr (tr, va, te)" and
    l1: "local_store a (tr, va, te) w1 = Inr w1'" by blast
  from main_Inr [OF r2] rd t1 obtain tr' va' te' where
    p2: "partitions lib (np_random w2) df = Inr (tr', va', te')" and
    l2: "local_store a (tr', va', te') w2 = Inr w2'" by auto
  from p1 p2 partitions_seeded [of lib "np_random w1" df "np_random w2"]
  have eq: "tr' = tr" "va' = va" "te' = te" by simp_all
  from local_store_Inr [OF l1] obtain o1 o2 o3 o4 where
    o: "label_first tr = Inr o1" "label_first va = Inr o2" "label_only te = Inr o3"
       "features_only te = Inr o4" and
    w1': "w1' = print ''## Processing complete. Exiting.''
                (w1\<lparr>files := (files w1)(train_path a \<mapsto> csv_rows o1, validation_path a \<mapsto> csv_rows o2,
                                       test_y_path a \<mapsto> csv_rows o3, test_x_path a \<mapsto> csv_rows o4)\<rparr>)"
    by blast
  from local_store_Inr [OF l2 [unfolded eq]] o have
    w2': "w2' = print ''## Processing complete. Exiting.''
                (w2\<lparr>files := (files w2)(train_path a \<mapsto> csv_rows o1, validation_path a \<mapsto> csv_rows o2,
                                       test_y_path a \<mapsto> csv_rows o3, test_x_path a \<mapsto> csv_rows o4)\<rparr>)"
    by auto
  have "list_all (\<lambda>p. files w1' p = files w2' p \<and> files w1' p \<noteq> None) (output_paths a)"
    using files_after(1-4) [OF w1'] files_after(1-4) [OF w2'] by (simp add: output_paths_def)
  moreover have "\<exists>df parts. read_csv lib w1 (input_path a) = Inr df
            \<and> read_csv lib w2 (input_path a) = Inr df
            \<and> partitions lib (np_random w1) df = Inr parts
            \<and> partitions lib (np_random w2) df = Inr parts"
    using t1 rd p1 p2 eq by auto
  ultimately show ?thesis by blast
qed

text \<open>C5 at the two example worlds, which differ in generator state and in their files.\<close>

theorem C5_deterministic_witness:
  "files ex_world (input_path default_args) = files ex_world_later (input_path default_args)
   \<and> np_random ex_world \<noteq> np_random ex_world_later
   \<and> files ex_world \<noteq> files ex_world_later
   \<and> list_all (\<lambda>p. files (projr (main ex_library default_args ex_world)) p
                    = files (projr (main ex_library default_args ex_world_later)) p
                  \<and> files (projr (main ex_library default_args ex_world)) p \<noteq> None)
        (output_paths default_args)"
proof -
  have h0: "files ex_world (input_path default_args) = files ex_world_later (input_path default_args)"
    by (simp add: ex_defs input_path_def path_join_def default_args_def)
  from main_ex_world obtain w1' where h1: "main ex_library default_args ex_world = Inr w1'" by blast
  have "\<exists>w'. main ex_library default_args ex_world_later = Inr w'"
    by (simp add: eval_defs cut_defs ex_defs)
  then obtain w2' where h2: "main ex_library default_args ex_world_later = Inr w2'" by blast
  have d: "np_random ex_world \<noteq> np_random ex_world_later" by (simp add: ex_defs)
  have "files ex_world ''/opt/ml/processing/output/train/train.csv''
          \<noteq> files ex_world_later ''/opt/ml/processing/output/train/train.csv''"
    by (simp add: ex_defs)
  then have f: "files ex_world \<noteq> files ex_world_later" by metis
  from C5_deterministic [OF h0 h1 h2]
  have "list_all (\<lambda>p. files w1' p = files w2' p \<and> files w1' p \<noteq> None) (output_paths default_args)"
    by blast
  with h0 d f show ?thesis unfolding h1 h2 by simp
qed

subsection \<open>The categorical-column list is not used (C9, C7)\<close>

lemma local_store_outputpath:
  assumes "outputpath a1 = outputpath a2"
  shows "local_store a1 = local_store a2"
proof (intro ext)
  fix parts :: "frame \<times> frame \<times> frame" and w :: "'g world"
  have p: "train_path a1 = train_path a2" "validation_path a1 = validation_path a2"
    "test_y_path a1 = test_y_path a2" "test_x_path a1 = test_x_path a2"
    using assms
    by (simp_all add: train_path_def validation_path_def test_y_path_def test_x_path_def)
  show "local_store a1 parts w = local_store a2 parts w"
    unfolding local_store_def p by (rule refl)
qed

lemma main_args:
  assumes "filepath a1 = filepath a2" and "filename a1 = filename a2"
    and "outputpath a1 = outputpath a2"
  shows "main lib a1 w = main lib a2 w"
  unfolding main_def assms(1,2) local_store_outputpath [OF assms(3)] by (rule refl)

text \<open>
  What the encoding does to a loaded table: every object column that reaches
  \<^verbatim>\<open>get_dummies\<close> is replaced by the 0/1 columns of its levels.
\<close>

lemma setitem_keeps:
  "c \<in> set (columns df) \<Longrightarrow> label c \<noteq> key \<Longrightarrow> c \<in> set (columns (setitem df key vs))"
  by (auto simp: setitem_def)

lemma add_indicator_keeps:
  assumes "add_indicator new src test df = Inr df'" and "c \<in> set (columns df)" and "label c \<noteq> new"
  shows "c \<in> set (columns df')"
  using add_indicator_Inr [OF assms(1)] assms(2,3) by (auto simp: setitem_keeps)

lemma get_dummies_encodes:
  "list_all (\<lambda>c. dtype c \<noteq> Object) (columns (get_dummies f))"
  "c \<in> set (columns f) \<Longrightarrow> dtype c = Object \<Longrightarrow> l \<in> set (levels (cells c))
     \<Longrightarrow> dummy_column c l \<in> set (columns (get_dummies f))"
  by (auto simp: get_dummies_def list_all_iff get_dummies_1d_def dummy_column_def)

lemma derive_encoded:
  assumes "derive df = Inr d"
  shows "encoded_all df d"
proof -
  from derive_Inr [OF assms] obtain df2 df3 where
    a: "add_indicators (normalize df) = Inr df2" and dr: "drop_labels pruned df2 = Inr df3" and
    d: "d = get_dummies df3" by blast
  from add_indicators_Inr [OF a] obtain df1 where
    a1: "add_indicator ''no_previous_contact'' ''pdays'' (eq_scalar 999) (normalize df) = Inr df1" and
    a2: "add_indicator ''not_working'' ''job'' (isin not_working_jobs) df1 = Inr df2" by blast
  have k: "dummy_column c l \<in> set (columns d)"
    if c: "c \<in> set (columns (normalize df))" and o: "dtype c = Object"
      and n: "label c \<notin> set pruned \<union> {''no_previous_contact'', ''not_working''}"
      and l: "l \<in> set (levels (cells c))" for c l
  proof -
    from n have n1: "label c \<noteq> ''no_previous_contact''" and n2: "label c \<noteq> ''not_working''"
      and n3: "label c \<notin> set pruned" by simp_all
    have "c \<in> set (columns df1)" using a1 c n1 by (rule add_indicator_keeps)
    with a2 have "c \<in> set (columns df2)" using n2 by (rule add_indicator_keeps)
    with n3 have "c \<in> set (columns df3)" by (simp add: drop_labels_Inr(2) [OF dr])
    then show ?thesis unfolding d using o l by (rule get_dummies_encodes(2))
  qed
  have e: "list_all (\<lambda>c. dtype c \<noteq> Object) (columns d)"
    unfolding d by (rule get_dummies_encodes(1))
  from e k show ?thesis
    unfolding encoded_all_def by (simp add: list_all_iff)
qed

text \<open>
  C9. Two argument records that agree on the input directory, the file name and the
  output directory give the same run, whatever their categorical-column lists: the same
  error and the same files left behind, or the same resulting world, so that each of the
  four output paths holds the same content after both runs. After a successful run all
  four files are written, and what they hold comes from the encoded table of the loaded
  table, in which every object column that was not pruned is replaced by the 0/1 columns
  of all its levels and no object column is left: the encoding takes no column list.
\<close>

theorem C9_list_ignored:
  assumes "filepath a1 = filepath a2" and "filename a1 = filename a2"
    and "outputpath a1 = outputpath a2"
  shows "main lib a1 w = main lib a2 w \<and> output_paths a1 = output_paths a2
     \<and> list_all (\<lambda>p. files (final (main lib a1 w)) p = files (final (main lib a2 w)) p)
         (output_paths a1)
     \<and> (\<forall>w'. main lib a1 w = Inr w' \<longrightarrow>
           list_all (\<lambda>p. files w' p \<noteq> None) (output_paths a1)
           \<and> (\<exists>df d parts. read_csv lib w (input_path a1) = Inr df
                 \<and> derive df = Inr d \<and> encoded_all df d
                 \<and> shuffle_split lib (np_random w) d = Inr parts
                 \<and> local_store a1 parts w = Inr w' \<and> local_store a2 parts w = Inr w'))"
proof -
  have m: "main lib a1 w = main lib a2 w" using assms by (rule main_args)
  have op: "output_paths a1 = output_paths a2"
    using assms(3)
    by (simp add: output_paths_def train_path_def validation_path_def test_y_path_def test_x_path_def)
  have same: "list_all (\<lambda>p. files (final (main lib a1 w)) p = files (final (main lib a2 w)) p)
         (output_paths a1)"
    by (simp add: m list_all_iff)
  have ok: "list_all (\<lambda>p. files w' p \<noteq> None) (output_paths a1)
           \<and> (\<exists>df d parts. read_csv lib w (input_path a1) = Inr df
                 \<and> derive df = Inr d \<and> encoded_all df d
                 \<and> shuffle_split lib (np_random w) d = Inr parts
                 \<and> local_store a1 parts w = Inr w' \<and> local_store a2 parts w = Inr w')"
    if r: "main lib a1 w = Inr w'" for w'
  proof -
    from main_Inr [OF r] obtain df tr va te where
      t: "read_csv lib w (input_path a1) = Inr df" and
      p: "partitions lib (np_random w) df = Inr (tr, va, te)" and
      ls: "local_store a1 (tr, va, te) w = Inr w'" by blast
    from partitions_Inr [OF p] obtain d where
      d: "derive df = Inr d" and ss: "shuffle_split lib (np_random w) d = Inr (tr, va, te)" by blast
    from local_store_Inr [OF ls] obtain o1 o2 o3 o4 where
      w': "w' = print ''## Processing complete. Exiting.''
                (w\<lparr>files := (files w)(train_path a1 \<mapsto> csv_rows o1, validation_path a1 \<mapsto> csv_rows o2,
                                       test_y_path a1 \<mapsto> csv_rows o3, test_x_path a1 \<mapsto> csv_rows o4)\<rparr>)"
      by blast
    have f: "list_all (\<lambda>p. files w' p \<noteq> None) (output_paths a1)"
      using files_after(1-4) [OF w'] by (simp add: output_paths_def)
    have ls2: "local_store a2 (tr, va, te) w = Inr w'"
      using ls by (simp add: local_store_outputpath [OF assms(3)])
    from t d derive_encoded [OF d] ss ls ls2
    have "\<exists>df d parts. read_csv lib w (input_path a1) = Inr df
                 \<and> derive df = Inr d \<and> encoded_all df d
                 \<and> shuffle_split lib (np_random w) d = Inr parts
                 \<and> local_store a1 parts w = Inr w' \<and> local_store a2 parts w = Inr w'"
      by blast
    with f show ?thesis by blast
  qed
  from m op same ok show ?thesis by blast
qed

text \<open>
  C9 at the example world, for the default list and the list \<open>job\<close>: the two runs are
  the same successful run, the four files are written, and the encoded table has the
  0/1 columns of the two object columns \<open>job\<close> and \<open>y\<close>, of which the list \<open>job\<close> names
  only one.
\<close>

theorem C9_list_ignored_witness:
  "categorical_features default_args
     \<noteq> categorical_features (default_args\<lparr>categorical_features := ''job''\<rparr>)
   \<and> main ex_library default_args ex_world
       = main ex_library (default_args\<lparr>categorical_features := ''job''\<rparr>) ex_world
   \<and> \<not> isl (main ex_library default_args ex_world)
   \<and> list_all (\<lambda>p. files (final (main ex_library default_args ex_world)) p \<noteq> None)
        (output_paths default_args)
   \<and> (\<exists>d. derive ex_table = Inr d \<and> encoded_all ex_table d)
   \<and> map_sum id labels (derive ex_table)
       = Inr [''pdays'', ''no_previous_contact'', ''not_working'', ''job_admin'', ''job_retired'',
              ''job_student'', ''job_unemployed'', ''y_no'', ''y_yes'']"
proof -
  let ?a2 = "default_args\<lparr>categorical_features := ''job''\<rparr>"
  from main_ex_world obtain w' where h: "main ex_library default_args ex_world = Inr w'" by blast
  have d: "categorical_features default_args \<noteq> categorical_features ?a2"
    by (simp add: default_args_def)
  have l: "map_sum id labels (derive ex_table)
       = Inr [''pdays'', ''no_previous_contact'', ''not_working'', ''job_admin'', ''job_retired'',
              ''job_student'', ''job_unemployed'', ''y_no'', ''y_yes'']"
    by (simp add: eval_defs ex_defs)
  have p: "filepath default_args = filepath ?a2" "filename default_args = filename ?a2"
    "outputpath default_args = outputpath ?a2"
    by simp_all
  note c = C9_list_ignored [OF p, of ex_library ex_world]
  from c have e: "main ex_library default_args ex_world = main ex_library ?a2 ex_world"
    by (rule conjunct1)
  note c' = c [THEN conjunct2, THEN conjunct2, THEN conjunct2, rule_format, OF h]
  from c' have f: "list_all (\<lambda>p. files w' p \<noteq> None) (output_paths default_args)"
    by (rule conjunct1)
  from c' obtain df d where
    "read_csv ex_library ex_world (input_path default_args) = Inr df" "derive df = Inr d"
    "encoded_all df d" by blast
  with read_ex_world have x: "\<exists>d. derive ex_table = Inr d \<and> encoded_all ex_table d" by auto
  have i: "\<not> isl (main ex_library default_args ex_world)" by (simp add: h)
  have f': "list_all (\<lambda>p. files (final (main ex_library default_args ex_world)) p \<noteq> None)
        (output_paths default_args)"
    using f by (simp add: h final_def)
  from d e i f' x l show ?thesis by blast
qed

subsection \<open>The two test files together (C6)\<close>

lemma mset_x_y_columns:
  "mset (filter (\<lambda>c. label c \<notin> set label_cols) cs @ filter (\<lambda>c. label c = ''y_yes'') cs)
     = mset (filter (\<lambda>c. label c \<noteq> ''y_no'') cs)"
  by (induction cs) (auto simp: label_cols_def)

lemma label_only_Inr:
  assumes "label_only part = Inr y"
  shows "index y = index part" and "columns y = filter (\<lambda>c. label c = ''y_yes'') (columns part)"
proof -
  from assms obtain ys where ys: "getitem part ''y_yes'' = Inr ys" and y: "y = part\<lparr>columns := ys\<rparr>"
    by (auto simp: label_only_def split: sum.splits)
  from ys getitem_Inr_iff [of part "''y_yes''" ys]
  have "ys = filter (\<lambda>c. label c = ''y_yes'') (columns part)" by blast
  with y show "index y = index part" "columns y = filter (\<lambda>c. label c = ''y_yes'') (columns part)"
    by simp_all
qed

text \<open>
  C6, as amended. After a successful run, \<open>test_y.csv\<close> and \<open>test_x.csv\<close> hold the rows
  of two frames over the rows of the test partition whose columns, taken together, are
  the columns of the test partition except the column \<open>y_no\<close>, up to column order. The
  column \<open>y_no\<close> is a column of the test partition and is in neither file.
\<close>

theorem C6_test_files:
  assumes "main lib a w = Inr w'"
  shows "\<exists>test out_y out_x.
      (\<exists>df train validation. read_csv lib w (input_path a) = Inr df
          \<and> partitions lib (np_random w) df = Inr (train, validation, test))
    \<and> label_only test = Inr out_y \<and> features_only test = Inr out_x
    \<and> files w' (test_y_path a) = Some (csv_rows out_y)
    \<and> files w' (test_x_path a) = Some (csv_rows out_x)
    \<and> index out_x = index test \<and> index out_y = index test
    \<and> mset (columns out_x @ columns out_y)
         = mset (filter (\<lambda>c. label c \<noteq> ''y_no'') (columns test))
    \<and> ''y_no'' \<in> set (labels test)"
proof -
  from main_Inr [OF assms] obtain df tr va te where
    t: "read_csv lib w (input_path a) = Inr df" and
    p: "partitions lib (np_random w) df = Inr (tr, va, te)" and
    ls: "local_store a (tr, va, te) w = Inr w'" by blast
  from local_store_Inr [OF ls] obtain o1 o2 o3 o4 where
    o: "label_only te = Inr o3" "features_only te = Inr o4" and
    w': "w' = print ''## Processing complete. Exiting.''
                (w\<lparr>files := (files w)(train_path a \<mapsto> csv_rows o1, validation_path a \<mapsto> csv_rows o2,
                                       test_y_path a \<mapsto> csv_rows o3, test_x_path a \<mapsto> csv_rows o4)\<rparr>)"
    by blast
  note lib = partitions_no_pruned(3) [OF p]
  note f = files_after(3,4) [OF w']
  note x = features_only_labels(2,3,4) [OF o(2) lib]
  note y = label_only_Inr [OF o(1)]
  have e: "\<exists>df train validation. read_csv lib w (input_path a) = Inr df
          \<and> partitions lib (np_random w) df = Inr (train, validation, te)"
    using t p by blast
  have m: "mset (columns o4 @ columns o3) = mset (filter (\<lambda>c. label c \<noteq> ''y_no'') (columns te))"
    unfolding x(2) y(2) by (rule mset_x_y_columns)
  have n: "''y_no'' \<in> set (labels te)" using x(3) by (simp add: label_cols_def)
  show ?thesis
    apply (rule exI [of _ te], rule exI [of _ o3], rule exI [of _ o4])
    apply (intro conjI)
    apply (rule e o f x(1) y(1) m n)+
    done
qed

text \<open>C6 at the example world.\<close>

theorem C6_test_files_witness:
  "map_sum id (file_at (test_x_path default_args)) (main ex_library default_args ex_world)
     = Inr (Some [[IntC 999, IntC 1, IntC 0, IntC 1, IntC 0, IntC 0, IntC 0]])
   \<and> map_sum id (file_at (test_y_path default_args)) (main ex_library default_args ex_world)
     = Inr (Some [[IntC 0]])
   \<and> (\<exists>test x. \<exists>y::frame. map_sum id (snd \<circ> snd) (partitions ex_library 7 ex_table) = Inr test
          \<and> mset (columns x @ columns y) = mset (filter (\<lambda>c. label c \<noteq> ''y_no'') (columns test))
          \<and> map_sum id (file_at (test_x_path default_args)) (main ex_library default_args ex_world)
               = Inr (Some (csv_rows x)))"
proof -
  from main_ex_world obtain w' where h: "main ex_library default_args ex_world = Inr w'" by blast
  have t: "read_csv ex_library ex_world (input_path default_args) = Inr ex_table"
    "np_random ex_world = 7"
    by (rule read_ex_world) (simp add: ex_world_def)
  from C6_test_files [OF h] obtain test x and y :: frame and df tr va where
    a: "read_csv ex_library ex_world (input_path default_args) = Inr df"
       "partitions ex_library (np_random ex_world) df = Inr (tr, va, test)" and
    b: "mset (columns x @ columns y) = mset (filter (\<lambda>c. label c \<noteq> ''y_no'') (columns test))"
       "files w' (test_x_path default_args) = Some (csv_rows x)"
    by (elim exE conjE) (rule that; assumption)
  from a t have "partitions ex_library 7 ex_table = Inr (tr, va, test)" by simp
  with b
  have "\<exists>test x. \<exists>y::frame. map_sum id (snd \<circ> snd) (partitions ex_library 7 ex_table) = Inr test
          \<and> mset (columns x @ columns y) = mset (filter (\<lambda>c. label c \<noteq> ''y_no'') (columns test))
          \<and> map_sum id (file_at (test_x_path default_args)) (main ex_library default_args ex_world)
               = Inr (Some (csv_rows x))"
    unfolding h by (auto simp: file_at_def)
  moreover have "map_sum id (file_at (test_x_path default_args)) (main ex_library default_args ex_world)
     = Inr (Some [[IntC 999, IntC 1, IntC 0, IntC 1, IntC 0, IntC 0, IntC 0]])"
    by (simp add: eval_defs cut_defs ex_defs file_at_def)
  moreover have "map_sum id (file_at (test_y_path default_args)) (main ex_library default_args ex_world)
     = Inr (Some [[IntC 0]])"
    by (simp add: eval_defs cut_defs ex_defs file_at_def)
  ultimately show ?thesis by blast
qed

text \<open>
  C6 as stated fails at the example world: the one row of the test partition has nine
  fields, among them the \<open>y_no\<close> value 1; the line of \<open>test_x.csv\<close> has seven fields and
  the line of \<open>test_y.csv\<close> one, so together they give eight and the \<open>y_no\<close> value is
  absent.
\<close>

theorem C6_counterexample:
  "map_sum id (labels \<circ> snd \<circ> snd) (partitions ex_library (np_random ex_world) ex_table)
     = Inr [''pdays'', ''no_previous_contact'', ''not_working'', ''job_admin'', ''job_retired'',
            ''job_student'', ''job_unemployed'', ''y_no'', ''y_yes'']
   \<and> map_sum id (csv_rows \<circ> snd \<circ> snd) (partitions ex_library (np_random ex_world) ex_table)
     = Inr [[IntC 999, IntC 1, IntC 0, IntC 1, IntC 0, IntC 0, IntC 0, IntC 1, IntC 0]]
   \<and> map_sum id (file_at (test_x_path default_args)) (main ex_library default_args ex_world)
     = Inr (Some [[IntC 999, IntC 1, IntC 0, IntC 1, IntC 0, IntC 0, IntC 0]])
   \<and> map_sum id (file_at (test_y_path default_args)) (main ex_library default_args ex_world)
     = Inr (Some [[IntC 0]])
   \<and> length ([IntC 999, IntC 1, IntC 0, IntC 1, IntC 0, IntC 0, IntC 0] @ [IntC 0])
       \<noteq> length [IntC 999, IntC 1, IntC 0, IntC 1, IntC 0, IntC 0, IntC 0, IntC 1, IntC 0 :: cell]"
  by (simp add: eval_defs cut_defs ex_defs file_at_def)

subsection \<open>Where a lookup error can come from (C7)\<close>

lemma getitem_KeyError: "getitem df key = Inl e \<Longrightarrow> e = KeyError [key]"
  by (auto simp: getitem_def split: list.splits)

lemma drop_labels_KeyError: "drop_labels names df = Inl e \<Longrightarrow> \<exists>ks. e = KeyError ks \<and> set ks \<subseteq> set names"
proof -
  assume a: "drop_labels names df = Inl e"
  then have "e = KeyError (filter (\<lambda>n. n \<notin> set (labels df)) names)"
    by (auto simp: drop_labels_def split: list.splits)
  then show ?thesis by auto
qed

lemma add_indicator_KeyError:
  "add_indicator new src test df = Inl (KeyError ks) \<Longrightarrow> ks = [src]"
  by (auto simp: add_indicator_def split: sum.splits list.splits dest: getitem_KeyError)

lemma add_indicators_KeyError:
  "add_indicators df = Inl (KeyError ks) \<Longrightarrow> ks = [''pdays''] \<or> ks = [''job'']"
  by (auto simp: add_indicators_def split: sum.splits dest: add_indicator_KeyError)

lemma derive_KeyError:
  assumes "derive df = Inl (KeyError ks)"
  shows "set ks \<subseteq> set fixed_lookups"
proof -
  from assms consider "add_indicators (normalize df) = Inl (KeyError ks)"
    | df2 where "drop_labels pruned df2 = Inl (KeyError ks)"
    by (auto simp: derive_def split: sum.splits)
  then show ?thesis
  proof cases
    case 1
    then show ?thesis by (auto dest!: add_indicators_KeyError simp: fixed_lookups_def)
  next
    case 2
    then show ?thesis by (auto dest!: drop_labels_KeyError simp: fixed_lookups_def)
  qed
qed

lemma shuffle_split_KeyError: "shuffle_split lib g d \<noteq> Inl (KeyError ks)"
  by (auto simp: shuffle_split_def sample_def take_rows_def Let_def split: sum.splits if_splits)

lemma partitions_KeyError:
  assumes "partitions lib g df = Inl (KeyError ks)"
  shows "set ks \<subseteq> set fixed_lookups"
  using assms derive_KeyError [of df ks] shuffle_split_KeyError [of lib g _ ks]
  by (auto simp: partitions_def split: sum.splits)

lemma label_frames_KeyError:
  "label_first part = Inl (KeyError ks) \<Longrightarrow> set ks \<subseteq> set fixed_lookups"
  "label_only part = Inl (KeyError ks) \<Longrightarrow> set ks \<subseteq> set fixed_lookups"
  "features_only part = Inl (KeyError ks) \<Longrightarrow> set ks \<subseteq> set fixed_lookups"
  by (auto simp: label_first_def label_only_def features_only_def fixed_lookups_def label_cols_def
      split: sum.splits dest!: getitem_KeyError drop_labels_KeyError)

lemma store_KeyError:
  "store out path w = Inl (KeyError ks, w') \<Longrightarrow> out = Inl (KeyError ks)"
  by (auto simp: store_def to_csv_def split: sum.splits if_splits)

lemma local_store_KeyError:
  assumes "local_store a (tr, va, te) w = Inl (KeyError ks, w')"
  shows "set ks \<subseteq> set fixed_lookups"
proof -
  from assms consider "label_first tr = Inl (KeyError ks)" | "label_first va = Inl (KeyError ks)"
    | "label_only te = Inl (KeyError ks)" | "features_only te = Inl (KeyError ks)"
    by (auto simp: local_store_def split: sum.splits dest!: store_KeyError)
  then show ?thesis by cases (auto dest: label_frames_KeyError)
qed

lemma main_KeyError:
  assumes "main lib a w = Inl (KeyError ks, w')"
  shows "set ks \<subseteq> set fixed_lookups"
proof -
  from assms consider df where "partitions lib (np_random w) df = Inl (KeyError ks)"
    | tr va te where "local_store a (tr, va, te) w = Inl (KeyError ks, w')"
    by (auto simp: main_def read_csv_def split: sum.splits option.splits)
  then show ?thesis
    by cases (auto dest: partitions_KeyError local_store_KeyError)
qed

text \<open>
  C7, as amended. The categorical-column list is never looked up: replacing it by any
  value, also one that names a column the table does not have, leaves the run as it is,
  and a lookup error of the run can only name columns the script itself names, that is
  \<open>pdays\<close>, \<open>job\<close>, the six pruned columns, \<open>y_yes\<close> and \<open>y_no\<close>.
\<close>

theorem C7_list_never_looked_up:
  "main lib (a\<lparr>categorical_features := c\<rparr>) w = main lib a w
   \<and> (\<forall>ks w'. main lib (a\<lparr>categorical_features := c\<rparr>) w = Inl (KeyError ks, w')
           \<longrightarrow> set ks \<subseteq> set fixed_lookups)"
proof -
  have "main lib (a\<lparr>categorical_features := c\<rparr>) w = main lib a w"
    by (rule main_args) simp_all
  then show ?thesis by (auto dest: main_KeyError)
qed

text \<open>
  C7 at a world whose table lacks the six pruned columns: with the list
  \<open>no_such_column\<close> the run raises the lookup error of the drop, as with the default list.
\<close>

theorem C7_list_never_looked_up_witness:
  "main ex_library (default_args\<lparr>categorical_features := ''no_such_column''\<rparr>) ex_world_short
     = Inl (KeyError pruned, ex_world_short)
   \<and> main ex_library default_args ex_world_short = Inl (KeyError pruned, ex_world_short)
   \<and> set pruned \<subseteq> set fixed_lookups"
proof -
  have e: "main ex_library (default_args\<lparr>categorical_features := ''no_such_column''\<rparr>) ex_world_short
     = Inl (KeyError pruned, ex_world_short)"
    by (simp add: eval_defs cut_defs ex_defs)
  from C7_list_never_looked_up [where lib = ex_library and a = default_args
      and c = "''no_such_column''" and w = ex_world_short] e
  show ?thesis by auto
qed

text \<open>
  C7 as stated fails at the example world: the list names \<open>no_such_column\<close>, which is
  no column of the table, and the run completes and prints its last line.
\<close>

theorem C7_counterexample:
  "''no_such_column'' \<notin> set (labels ex_table)
   \<and> categorical_features (default_args\<lparr>categorical_features := ''no_such_column''\<rparr>)
       = ''no_such_column''
   \<and> map_sum fst stdout
        (main ex_library (default_args\<lparr>categorical_features := ''no_such_column''\<rparr>) ex_world)
       = Inr [''## Processing complete. Exiting.'']"
  by (simp add: eval_defs cut_defs ex_defs)

subsection \<open>Effects on the world (C8)\<close>




end
